theory Spec2Isabelle
  imports Main "HOL-Library.Word"
begin

unbundle bit_operations_syntax

section \<open>The UBX schema-driven decoder of \<^verbatim>\<open>ublox_gps/core.py\<close>\<close>

text \<open>
  The module is Python 2 code (\<^verbatim>\<open>xrange\<close>, \<^verbatim>\<open>unicode\<close>, \<^verbatim>\<open>it.next()\<close>), so its
  \<^verbatim>\<open>str\<close> is a byte string. A HOL \<^typ>\<open>char\<close> is one byte, hence a Python 2 \<^verbatim>\<open>str\<close> is a
  HOL \<^typ>\<open>string\<close>, \<^verbatim>\<open>ord\<close> is \<^const>\<open>of_char\<close>, and Python's unbounded integers are
  \<^typ>\<open>int\<close>. Every \<^verbatim>\<open>raise\<close> of the source is a value of the type \<open>error\<close> below,
  returned as \<open>Inl\<close>.
\<close>

subsection \<open>Exceptions\<close>

datatype error =
    FlagStartNegative int             \<comment> \<open>ValueError, \<^verbatim>\<open>Flag.__init__\<close>: \<^verbatim>\<open>0 > start\<close>\<close>
  | FlagStartAfterStop int int        \<comment> \<open>ValueError, \<^verbatim>\<open>Flag.__init__\<close>: \<^verbatim>\<open>start > stop\<close>\<close>
  | FlagStopTooWide int               \<comment> \<open>ValueError, \<^verbatim>\<open>Flag.__init__\<close>: \<^verbatim>\<open>stop > 4 * 8\<close>\<close>
  | FieldLenNotValid int              \<comment> \<open>ValueError built in \<^verbatim>\<open>Field.__init__\<close>\<close>
  | TypeNotValid string               \<comment> \<open>ValueError: type name not in \<^verbatim>\<open>__types__\<close>\<close>
  | IdNegative int                    \<comment> \<open>ValueError, \<^verbatim>\<open>Message.__init__\<close>: \<^verbatim>\<open>id_ < 0\<close>\<close>
  | IdTooLarge int                    \<comment> \<open>ValueError, \<^verbatim>\<open>Message.__init__\<close>: \<^verbatim>\<open>id_ > 0xFF\<close>\<close>
  | DuplicateFieldName                \<comment> \<open>ValueError, \<^verbatim>\<open>namedtuple\<close>: a field name occurs twice\<close>
  | MultipleRepeatedBlocks            \<comment> \<open>ValueError, \<^verbatim>\<open>Message.__init__\<close>\<close>
  | LengthMismatch nat nat            \<comment> \<open>ValueError, \<^verbatim>\<open>Message.parse\<close>: expected, actual\<close>
  | ShortRead nat nat                 \<comment> \<open>IOError, \<^verbatim>\<open>receive_from\<close>: bytes reported, bytes expected\<close>
  | UnsupportedClass int int          \<comment> \<open>ValueError, \<^verbatim>\<open>receive_from\<close>: message id, class id\<close>
  | UnsupportedMessage int int        \<comment> \<open>ValueError, \<^verbatim>\<open>receive_from\<close>: message id, class id\<close>
  | ChecksumMismatch string string    \<comment> \<open>ValueError, \<^verbatim>\<open>receive_from\<close>: calculated, received\<close>
  | KeyError int                      \<comment> \<open>a dictionary lookup of a missing key\<close>
  | NameError string                  \<comment> \<open>a global name that is not defined\<close>
  | UnicodeDecodeError                \<comment> \<open>\<^verbatim>\<open>decode('ascii')\<close> of a byte above 127\<close>
  | AttributeError                    \<comment> \<open>\<^verbatim>\<open>decode\<close> of a value that is not a string\<close>
  | TypeError                         \<comment> \<open>\<^verbatim>\<open>&\<close> of a value that is not an integer\<close>
  | StopIteration                     \<comment> \<open>\<^verbatim>\<open>it.next()\<close> of an exhausted iterator\<close>
  | IndexError                        \<comment> \<open>\<^verbatim>\<open>resp[0]\<close> of an empty list\<close>
  | StructError nat nat               \<comment> \<open>struct.error: unpack needs a buffer of the format's size\<close>
  | BuiltinError string               \<comment> \<open>raised by the builtin \<^verbatim>\<open>int\<close> or \<^verbatim>\<open>float\<close>\<close>

subsection \<open>Decoded values\<close>

text \<open>
  The values \<^verbatim>\<open>struct.unpack\<close> and the \<^verbatim>\<open>parse\<close> methods produce. A float is kept as the
  bytes that encode it, a named tuple as its type name and its fields in order.
\<close>

datatype pyval =
    PyInt int
  | PyFloat string
  | PyStr string
  | PyUnicode string
  | PyList "pyval list"
  | PyNT string "(string \<times> pyval) list"

text \<open>
  \<^verbatim>\<open>int(x)\<close> and \<^verbatim>\<open>float(x)\<close> are the identity on an integer and on a float. On a value
  of another type (which a field sees only after an earlier field left the iterator
  behind) they are Python builtins that are not part of this module: the model takes them
  as a parameter.
\<close>

record builtins =
  py_int :: "pyval \<Rightarrow> error + pyval"
  py_float :: "pyval \<Rightarrow> error + pyval"

definition conv_int :: "builtins \<Rightarrow> pyval \<Rightarrow> error + pyval" where
  "conv_int bi v = (case v of PyInt n \<Rightarrow> Inr (PyInt n) | _ \<Rightarrow> py_int bi v)"

definition conv_float :: "builtins \<Rightarrow> pyval \<Rightarrow> error + pyval" where
  "conv_float bi v = (case v of PyFloat b \<Rightarrow> Inr (PyFloat b) | _ \<Rightarrow> py_float bi v)"

fun map_result :: "('a \<Rightarrow> error + 'b) \<Rightarrow> 'a list \<Rightarrow> error + 'b list" where
  "map_result f [] = Inr []"
| "map_result f (x # xs) =
     (case f x of Inl e \<Rightarrow> Inl e
      | Inr y \<Rightarrow> (case map_result f xs of Inl e \<Rightarrow> Inl e | Inr ys \<Rightarrow> Inr (y # ys)))"

subsection \<open>The struct module, native mode\<close>

text \<open>
  The format strings of this module carry no byte-order prefix, so \<^verbatim>\<open>struct\<close> works in
  native mode: native sizes, native byte order and native alignment, where an item is
  placed at the next multiple of its alignment. The sizes and alignments are those of the
  usual little-endian platforms (x86-64, ARM). A format string is modelled as its list of
  items, each a repeat count and a format character; a string without count has count 1.
\<close>

type_synonym fmt = "(nat \<times> char) list"

definition code_size :: "char \<Rightarrow> nat" where
  "code_size c =
     (if c = CHR ''h'' \<or> c = CHR ''H'' then 2
      else if c = CHR ''i'' \<or> c = CHR ''I'' \<or> c = CHR ''f'' then 4
      else if c = CHR ''d'' then 8
      else 1)"

definition code_align :: "char \<Rightarrow> nat" where
  "code_align c =
     (if c = CHR ''h'' \<or> c = CHR ''H'' then 2
      else if c = CHR ''i'' \<or> c = CHR ''I'' \<or> c = CHR ''f'' then 4
      else if c = CHR ''d'' then 8
      else 1)"

definition align_up :: "nat \<Rightarrow> nat \<Rightarrow> nat" where
  "align_up off a = ((off + a - 1) div a) * a"

fun calcsize_from :: "nat \<Rightarrow> fmt \<Rightarrow> nat" where
  "calcsize_from off [] = off"
| "calcsize_from off ((n, c) # items) =
     calcsize_from (align_up off (code_align c) + n * code_size c) items"

definition struct_calcsize :: "fmt \<Rightarrow> nat" where
  "struct_calcsize f = calcsize_from 0 f"

text \<open>The size of a format without alignment padding: the sum of its items.\<close>

definition packed_size :: "fmt \<Rightarrow> nat" where
  "packed_size f = sum_list (map (\<lambda>(n, c). n * code_size c) f)"

definition le_uint :: "string \<Rightarrow> int" where
  "le_uint bs = foldr (\<lambda>c acc. of_char c + 256 * acc) bs 0"

definition le_sint :: "string \<Rightarrow> int" where
  "le_sint bs =
     (let v = le_uint bs
      in if 2 ^ (8 * length bs - 1) \<le> v then v - 2 ^ (8 * length bs) else v)"

definition chunks :: "nat \<Rightarrow> nat \<Rightarrow> string \<Rightarrow> string list" where
  "chunks n k bs = map (\<lambda>j. take k (drop (j * k) bs)) [0..<n]"

definition unpack_item :: "nat \<Rightarrow> char \<Rightarrow> string \<Rightarrow> pyval list" where
  "unpack_item n c bs =
     (if c = CHR ''x'' then []
      else if c = CHR ''s'' then [PyStr (take n bs)]
      else if c = CHR ''c'' then map (\<lambda>b. PyStr b) (chunks n 1 bs)
      else if c = CHR ''B'' \<or> c = CHR ''H'' \<or> c = CHR ''I''
        then map (\<lambda>b. PyInt (le_uint b)) (chunks n (code_size c) bs)
      else if c = CHR ''b'' \<or> c = CHR ''h'' \<or> c = CHR ''i''
        then map (\<lambda>b. PyInt (le_sint b)) (chunks n (code_size c) bs)
      else map (\<lambda>b. PyFloat b) (chunks n (code_size c) bs))"

fun unpack_from :: "nat \<Rightarrow> fmt \<Rightarrow> string \<Rightarrow> pyval list" where
  "unpack_from off [] buf = []"
| "unpack_from off ((n, c) # items) buf =
     (let a = align_up off (code_align c)
      in unpack_item n c (drop a buf) @ unpack_from (a + n * code_size c) items buf)"

definition struct_unpack :: "fmt \<Rightarrow> string \<Rightarrow> error + pyval list" where
  "struct_unpack f buf =
     (if length buf \<noteq> struct_calcsize f then Inl (StructError (struct_calcsize f) (length buf))
      else Inr (unpack_from 0 f buf))"

subsection \<open>PadByte\<close>

record PadByte =
  PadByte_repeat :: int

definition PadByte_init :: "int \<Rightarrow> PadByte" where
  "PadByte_init repeat = \<lparr>PadByte_repeat = repeat\<rparr>"

text \<open>\<^verbatim>\<open>PadByte()\<close>: the default argument \<^verbatim>\<open>repeat = 0\<close>.\<close>

definition PadByte_default :: PadByte where
  "PadByte_default = PadByte_init 0"

text \<open>\<^verbatim>\<open>u'x' * (self.repeat + 1)\<close>; a string times a number below 1 is empty.\<close>

definition PadByte_fmt :: "PadByte \<Rightarrow> fmt" where
  "PadByte_fmt self = replicate (nat (PadByte_repeat self + 1)) (1, CHR ''x'')"

text \<open>\<^verbatim>\<open>return None, None\<close>: no name, no value, and the iterator is not touched.\<close>

definition PadByte_parse :: "pyval list \<Rightarrow> (string \<times> pyval) option \<times> pyval list" where
  "PadByte_parse it = (None, it)"

subsection \<open>Field\<close>

definition Field_types :: "string \<rightharpoonup> char" where
  "Field_types = map_of
     [(''U1'', CHR ''B''), (''I1'', CHR ''b''),
      (''U2'', CHR ''H''), (''I2'', CHR ''h''),
      (''U4'', CHR ''I''), (''I4'', CHR ''i''), (''R4'', CHR ''f''),
      (''R8'', CHR ''d''), (''C'', CHR ''c''), (''S'', CHR ''s'')]"

record Field =
  Field_name :: string
  Field_type :: string
  Field_len :: int

text \<open>
  The statement under \<^verbatim>\<open>if (len_ is None or len_ < 0)\<close> is the expression
  \<^verbatim>\<open>ValueError(...)\<close> without \<^verbatim>\<open>raise\<close>: the exception object is built and dropped, and
  the constructor goes on. The model binds it to \<open>dropped\<close> and does not use it. The
  length is an \<^typ>\<open>int\<close>, so the value \<^verbatim>\<open>None\<close> is outside the model.
\<close>

definition Field_init :: "string \<Rightarrow> string \<Rightarrow> int \<Rightarrow> error + Field" where
  "Field_init name ty len =
     (let dropped = (if len < 0 then Some (FieldLenNotValid len) else None)
      in if Field_types ty = None then Inl (TypeNotValid ty)
         else Inr \<lparr>Field_name = name, Field_type = ty, Field_len = len\<rparr>)"

text \<open>\<^verbatim>\<open>Field(name, type_)\<close>: the default argument \<^verbatim>\<open>len_ = 1\<close>.\<close>

definition Field_init_default :: "string \<Rightarrow> string \<Rightarrow> error + Field" where
  "Field_init_default name ty = Field_init name ty 1"

text \<open>
  \<^verbatim>\<open>(unicode(self._len) if self._len > 1 else u'') + Field.__types__[self._type]\<close>.
  The lookup cannot fail on a constructed field; the model gives such a field no item.
\<close>

definition Field_fmt :: "Field \<Rightarrow> fmt" where
  "Field_fmt self =
     (case Field_types (Field_type self) of
        None \<Rightarrow> []
      | Some c \<Rightarrow> [(if Field_len self > 1 then nat (Field_len self) else 1, c)])"

text \<open>\<^verbatim>\<open>for i in xrange(0, len): resp.append(it.next())\<close>\<close>

definition take_next :: "nat \<Rightarrow> pyval list \<Rightarrow> error + (pyval list \<times> pyval list)" where
  "take_next n it = (if length it < n then Inl StopIteration else Inr (take n it, drop n it))"

text \<open>\<^verbatim>\<open>s.decode(u'ascii').rstrip(u'\0')\<close>\<close>

definition decode_ascii_rstrip :: "pyval \<Rightarrow> error + pyval" where
  "decode_ascii_rstrip v =
     (case v of
        PyStr s \<Rightarrow>
          if list_all (\<lambda>c. (of_char c :: nat) < 128) s
          then Inr (PyUnicode (rev (dropWhile (\<lambda>c. c = CHR 0x00) (rev s))))
          else Inl UnicodeDecodeError
      | _ \<Rightarrow> Inl AttributeError)"

text \<open>
  The conversion branches of \<^verbatim>\<open>Field.parse\<close>. The name \<^verbatim>\<open>double\<close> of the R8 branch is
  not defined in Python, so the first pass through that loop raises NameError.
\<close>

definition Field_convert :: "builtins \<Rightarrow> string \<Rightarrow> pyval list \<Rightarrow> error + pyval list" where
  "Field_convert bi t resp =
     (if t \<in> set [''U1'', ''I1'', ''U2'', ''I2'', ''U4'', ''I4''] then map_result (conv_int bi) resp
      else if t = ''R4'' then map_result (conv_float bi) resp
      else if t = ''R8'' then (if resp = [] then Inr resp else Inl (NameError ''double''))
      else if t = ''S'' then
        (case resp of [] \<Rightarrow> Inl IndexError
         | v # _ \<Rightarrow> (case decode_ascii_rstrip v of Inl e \<Rightarrow> Inl e | Inr u \<Rightarrow> Inr [u]))
      else Inr resp)"

definition Field_parse ::
  "builtins \<Rightarrow> Field \<Rightarrow> pyval list \<Rightarrow> error + ((string \<times> pyval) option \<times> pyval list)" where
  "Field_parse bi self it =
     (let len = (if Field_type self = ''S'' then 1 else Field_len self)
      in case take_next (nat len) it of
           Inl e \<Rightarrow> Inl e
         | Inr (resp, it') \<Rightarrow>
             (case Field_convert bi (Field_type self) resp of
                Inl e \<Rightarrow> Inl e
              | Inr resp' \<Rightarrow>
                  if len = 1
                  then (case resp' of [] \<Rightarrow> Inl IndexError
                        | v # _ \<Rightarrow> Inr (Some (Field_name self, v), it'))
                  else Inr (Some (Field_name self, PyList resp'), it')))"

subsection \<open>Flag\<close>

record Flag =
  Flag_name :: string
  Flag_start :: int
  Flag_stop :: int
  Flag_mask :: int

text \<open>\<^verbatim>\<open>for i in xrange(start, stop): self._mask |= 0x01 << i\<close>\<close>

definition Flag_mask_loop :: "int \<Rightarrow> int \<Rightarrow> int" where
  "Flag_mask_loop start stop =
     fold (\<lambda>i m. m OR push_bit (nat i) 1) [start..stop - 1] 0"

definition Flag_init :: "string \<Rightarrow> int \<Rightarrow> int \<Rightarrow> error + Flag" where
  "Flag_init name start stop =
     (if 0 > start then Inl (FlagStartNegative start)
      else if start > stop then Inl (FlagStartAfterStop start stop)
      else if stop > 4 * 8 then Inl (FlagStopTooWide stop)
      else Inr \<lparr>Flag_name = name, Flag_start = start, Flag_stop = stop,
                Flag_mask = Flag_mask_loop start stop\<rparr>)"

text \<open>\<^verbatim>\<open>return self.name, (value & self._mask) >> self._start\<close>\<close>

definition Flag_parse :: "Flag \<Rightarrow> int \<Rightarrow> string \<times> int" where
  "Flag_parse self v = (Flag_name self, drop_bit (nat (Flag_start self)) (v AND Flag_mask self))"

subsection \<open>BitField\<close>

definition BitField_types :: "string \<rightharpoonup> char" where
  "BitField_types = map_of [(''X1'', CHR ''B''), (''X2'', CHR ''H''), (''X4'', CHR ''I'')]"

record BitField =
  BitField_name :: string
  BitField_type :: string
  BitField_subfields :: "Flag list"

definition BitField_fmt :: "BitField \<Rightarrow> fmt" where
  "BitField_fmt self =
     (case BitField_types (BitField_type self) of None \<Rightarrow> [] | Some c \<Rightarrow> [(1, c)])"

text \<open>\<^verbatim>\<open>x.parse(value)\<close> on the dynamically typed word: \<^verbatim>\<open>&\<close> needs an integer.\<close>

definition Flag_parse_value :: "Flag \<Rightarrow> pyval \<Rightarrow> error + (string \<times> pyval)" where
  "Flag_parse_value x v =
     (case v of
        PyInt w \<Rightarrow> Inr (fst (Flag_parse x w), PyInt (snd (Flag_parse x w)))
      | _ \<Rightarrow> Inl TypeError)"

text \<open>
  A named tuple is built from the dictionary of the pairs, passed as keyword arguments.
  The names of a named tuple are distinct (\<^verbatim>\<open>namedtuple\<close> refuses anything else when
  the schema object is constructed), so the tuple holds the pairs in their order.
\<close>

definition BitField_parse ::
  "BitField \<Rightarrow> pyval list \<Rightarrow> error + ((string \<times> pyval) option \<times> pyval list)" where
  "BitField_parse self it =
     (case it of
        [] \<Rightarrow> Inl StopIteration
      | v # it' \<Rightarrow>
          (case map_result (\<lambda>x. Flag_parse_value x v) (BitField_subfields self) of
             Inl e \<Rightarrow> Inl e
           | Inr kvs \<Rightarrow> Inr (Some (BitField_name self, PyNT (BitField_name self) kvs), it')))"

subsection \<open>The descriptors of a repeated block\<close>

text \<open>
  The descriptors are duck-typed objects with \<^verbatim>\<open>fmt\<close> and \<^verbatim>\<open>parse\<close>. Inside a
  RepeatedBlock the model admits PadByte, Field and BitField.
\<close>

datatype Element = EPad PadByte | EField Field | EBitField BitField

fun Element_fmt :: "Element \<Rightarrow> fmt" where
  "Element_fmt (EPad p) = PadByte_fmt p"
| "Element_fmt (EField f) = Field_fmt f"
| "Element_fmt (EBitField b) = BitField_fmt b"

fun Element_parse ::
  "builtins \<Rightarrow> Element \<Rightarrow> pyval list \<Rightarrow> error + ((string \<times> pyval) option \<times> pyval list)" where
  "Element_parse bi (EPad p) it = Inr (PadByte_parse it)"
| "Element_parse bi (EField f) it = Field_parse bi f it"
| "Element_parse bi (EBitField b) it = BitField_parse b it"

text \<open>
  \<^verbatim>\<open>(k, v) for k, v in [f.parse(it) for f in fields] if k is not None\<close>: every field is
  parsed, in order, on the one iterator; then the pairs without name are left out.
\<close>

fun Elements_parse ::
  "builtins \<Rightarrow> Element list \<Rightarrow> pyval list \<Rightarrow> error + ((string \<times> pyval) list \<times> pyval list)" where
  "Elements_parse bi [] it = Inr ([], it)"
| "Elements_parse bi (f # fs) it =
     (case Element_parse bi f it of
        Inl e \<Rightarrow> Inl e
      | Inr (kv, it') \<Rightarrow>
          (case Elements_parse bi fs it' of
             Inl e \<Rightarrow> Inl e
           | Inr (kvs, it'') \<Rightarrow> Inr ((case kv of None \<Rightarrow> kvs | Some p \<Rightarrow> p # kvs), it'')))"

subsection \<open>RepeatedBlock\<close>

record RepeatedBlock =
  RepeatedBlock_name :: string
  RepeatedBlock_fields :: "Element list"
  RepeatedBlock_repeat :: nat

definition RepeatedBlock_init :: "string \<Rightarrow> Element list \<Rightarrow> RepeatedBlock" where
  "RepeatedBlock_init name flds =
     \<lparr>RepeatedBlock_name = name, RepeatedBlock_fields = flds, RepeatedBlock_repeat = 0\<rparr>"

text \<open>\<^verbatim>\<open>u''.join([field.fmt for field in self._fields]) * (self.repeat + 1)\<close>\<close>

definition RepeatedBlock_fmt :: "RepeatedBlock \<Rightarrow> fmt" where
  "RepeatedBlock_fmt self =
     concat (replicate (RepeatedBlock_repeat self + 1)
       (concat (map Element_fmt (RepeatedBlock_fields self))))"

text \<open>\<^verbatim>\<open>for i in xrange(self.repeat + 1): resp.append(self._nt(...))\<close>\<close>

fun RepeatedBlock_loop ::
  "builtins \<Rightarrow> RepeatedBlock \<Rightarrow> nat \<Rightarrow> pyval list \<Rightarrow> error + (pyval list \<times> pyval list)" where
  "RepeatedBlock_loop bi self 0 it = Inr ([], it)"
| "RepeatedBlock_loop bi self (Suc n) it =
     (case Elements_parse bi (RepeatedBlock_fields self) it of
        Inl e \<Rightarrow> Inl e
      | Inr (kvs, it') \<Rightarrow>
          (case RepeatedBlock_loop bi self n it' of
             Inl e \<Rightarrow> Inl e
           | Inr (resp, it'') \<Rightarrow> Inr (PyNT (RepeatedBlock_name self) kvs # resp, it'')))"

definition RepeatedBlock_parse ::
  "builtins \<Rightarrow> RepeatedBlock \<Rightarrow> pyval list \<Rightarrow> error + ((string \<times> pyval) option \<times> pyval list)" where
  "RepeatedBlock_parse bi self it =
     (case RepeatedBlock_loop bi self (RepeatedBlock_repeat self + 1) it of
        Inl e \<Rightarrow> Inl e
      | Inr (resp, it') \<Rightarrow> Inr (Some (RepeatedBlock_name self, PyList resp), it'))"

subsection \<open>The descriptors of a message\<close>

datatype Descriptor = DElem Element | DRepeated RepeatedBlock

fun repeated_block :: "Descriptor \<Rightarrow> bool" where
  "repeated_block (DElem e) = False"
| "repeated_block (DRepeated r) = True"

fun Descriptor_fmt :: "Descriptor \<Rightarrow> fmt" where
  "Descriptor_fmt (DElem e) = Element_fmt e"
| "Descriptor_fmt (DRepeated r) = RepeatedBlock_fmt r"

fun Descriptor_parse ::
  "builtins \<Rightarrow> Descriptor \<Rightarrow> pyval list \<Rightarrow> error + ((string \<times> pyval) option \<times> pyval list)" where
  "Descriptor_parse bi (DElem e) it = Element_parse bi e it"
| "Descriptor_parse bi (DRepeated r) it = RepeatedBlock_parse bi r it"

fun Descriptors_parse ::
  "builtins \<Rightarrow> Descriptor list \<Rightarrow> pyval list \<Rightarrow> error + ((string \<times> pyval) list \<times> pyval list)" where
  "Descriptors_parse bi [] it = Inr ([], it)"
| "Descriptors_parse bi (f # fs) it =
     (case Descriptor_parse bi f it of
        Inl e \<Rightarrow> Inl e
      | Inr (kv, it') \<Rightarrow>
          (case Descriptors_parse bi fs it' of
             Inl e \<Rightarrow> Inl e
           | Inr (kvs, it'') \<Rightarrow> Inr ((case kv of None \<Rightarrow> kvs | Some p \<Rightarrow> p # kvs), it'')))"

subsection \<open>Message\<close>

text \<open>
  \<^verbatim>\<open>_repeated_block\<close> refers to the RepeatedBlock object that is also an element of
  \<^verbatim>\<open>_fields\<close>: an assignment through one is seen through the other. The model keeps the
  object in the field list alone and \<^verbatim>\<open>_repeated_block\<close> as its position there
  (\<open>None\<close> for Python's \<^verbatim>\<open>None\<close>).
\<close>

record Message =
  Message_id :: int
  Message_name :: string
  Message_fields :: "Descriptor list"
  Message_repeated_block :: "nat option"

text \<open>
  \<^verbatim>\<open>for field in fields: if field.repeated_block: ...\<close>, with the position \<open>i\<close> of the
  field and the reference \<open>rb\<close> found so far.
\<close>

fun find_repeated_block :: "Descriptor list \<Rightarrow> nat \<Rightarrow> nat option \<Rightarrow> error + nat option" where
  "find_repeated_block [] i rb = Inr rb"
| "find_repeated_block (f # fs) i rb =
     (if repeated_block f
      then (if rb \<noteq> None then Inl MultipleRepeatedBlocks
            else find_repeated_block fs (i + 1) (Some i))
      else find_repeated_block fs (i + 1) rb)"

text \<open>\<^verbatim>\<open>[f.name for f in self._fields if hasattr(f, u'name')]\<close>: a PadByte has no name.\<close>

fun Element_name :: "Element \<Rightarrow> string option" where
  "Element_name (EPad p) = None"
| "Element_name (EField f) = Some (Field_name f)"
| "Element_name (EBitField b) = Some (BitField_name b)"

fun Descriptor_name :: "Descriptor \<Rightarrow> string option" where
  "Descriptor_name (DElem e) = Element_name e"
| "Descriptor_name (DRepeated r) = Some (RepeatedBlock_name r)"

definition field_names :: "Descriptor list \<Rightarrow> string list" where
  "field_names flds = List.map_filter Descriptor_name flds"

text \<open>
  The constructor builds the named tuple type of the message from the field names.
  \<^verbatim>\<open>namedtuple\<close> raises a ValueError for a name that occurs twice, which is modelled, and
  for a name that is not an identifier, which is a check on the spelling of the names
  alone and is not modelled.
\<close>

definition Message_init :: "int \<Rightarrow> string \<Rightarrow> Descriptor list \<Rightarrow> error + Message" where
  "Message_init ident name flds =
     (if ident < 0 then Inl (IdNegative ident)
      else if ident > 0xFF then Inl (IdTooLarge ident)
      else if \<not> distinct (field_names flds) then Inl DuplicateFieldName
      else (case find_repeated_block flds 0 None of
              Inl e \<Rightarrow> Inl e
            | Inr rb \<Rightarrow>
                Inr \<lparr>Message_id = ident, Message_name = name, Message_fields = flds,
                     Message_repeated_block = rb\<rparr>))"

text \<open>\<^verbatim>\<open>u''.join([field.fmt for field in self._fields])\<close>\<close>

definition Message_fmt :: "Message \<Rightarrow> fmt" where
  "Message_fmt self = concat (map Descriptor_fmt (Message_fields self))"

text \<open>Reading and assigning \<^verbatim>\<open>self._repeated_block.repeat\<close> through the position.\<close>

fun Descriptor_repeat :: "Descriptor \<Rightarrow> nat" where
  "Descriptor_repeat (DElem e) = 0"
| "Descriptor_repeat (DRepeated r) = RepeatedBlock_repeat r"

fun Descriptor_set_repeat :: "nat \<Rightarrow> Descriptor \<Rightarrow> Descriptor" where
  "Descriptor_set_repeat v (DElem e) = DElem e"
| "Descriptor_set_repeat v (DRepeated r) = DRepeated (r\<lparr>RepeatedBlock_repeat := v\<rparr>)"

definition get_repeat :: "Message \<Rightarrow> nat \<Rightarrow> nat" where
  "get_repeat self i = Descriptor_repeat (Message_fields self ! i)"

definition set_repeat :: "Message \<Rightarrow> nat \<Rightarrow> nat \<Rightarrow> Message" where
  "set_repeat self i v =
     self\<lparr>Message_fields :=
       (Message_fields self)[i := Descriptor_set_repeat v (Message_fields self ! i)]\<rparr>"

text \<open>
  The \<^verbatim>\<open>while True\<close> loop of \<^verbatim>\<open>Message.parse\<close>. It returns the schema as the loop left
  it, also when it raises. With a repeated block whose format is empty the size never
  grows and the loop does not end: the function is partial, \<open>None\<close> is "no return".
\<close>

partial_function (option) Message_parse_loop ::
  "Message \<Rightarrow> nat \<Rightarrow> ((error + unit) \<times> Message) option" where
  "Message_parse_loop self payload_len =
     (let fmt_len = struct_calcsize (Message_fmt self)
      in if fmt_len = payload_len then Some (Inr (), self)
         else if fmt_len > payload_len then Some (Inl (LengthMismatch fmt_len payload_len), self)
         else (case Message_repeated_block self of
                 None \<Rightarrow> Some (Inl (LengthMismatch fmt_len payload_len), self)
               | Some i \<Rightarrow>
                   Message_parse_loop (set_repeat self i (get_repeat self i + 1)) payload_len))"

declare Message_parse_loop.simps [code]

text \<open>
  The two statements of \<^verbatim>\<open>Message.parse\<close> after the loop: \<^verbatim>\<open>struct.unpack\<close> of the payload
  and the \<^verbatim>\<open>parse\<close> of every field on the iterator over the unpacked values.
\<close>

definition Message_decode :: "builtins \<Rightarrow> Message \<Rightarrow> string \<Rightarrow> error + (string \<times> pyval)" where
  "Message_decode bi self payload =
     (case struct_unpack (Message_fmt self) payload of
        Inl e \<Rightarrow> Inl e
      | Inr vals \<Rightarrow>
          (case Descriptors_parse bi (Message_fields self) vals of
             Inl e \<Rightarrow> Inl e
           | Inr (kvs, it) \<Rightarrow> Inr (Message_name self, PyNT (Message_name self) kvs)))"

text \<open>
  \<^verbatim>\<open>Message.parse\<close>; the \<^verbatim>\<open>try\<close> around \<^verbatim>\<open>self._repeated_block.repeat = 0\<close> passes over the
  AttributeError of \<^verbatim>\<open>None\<close>. The result is the pair of the message name and the
  named tuple, together with the schema object as the call leaves it.
\<close>

definition Message_parse ::
  "builtins \<Rightarrow> Message \<Rightarrow> string \<Rightarrow> ((error + (string \<times> pyval)) \<times> Message) option" where
  "Message_parse bi self payload =
     (let self0 = (case Message_repeated_block self of
                     None \<Rightarrow> self
                   | Some i \<Rightarrow> set_repeat self i 0)
      in case Message_parse_loop self0 (length payload) of
           None \<Rightarrow> None
         | Some (Inl e, self1) \<Rightarrow> Some (Inl e, self1)
         | Some (Inr u, self1) \<Rightarrow> Some (Message_decode bi self1 payload, self1))"

subsection \<open>Cls\<close>

record Cls =
  Cls_id :: int
  Cls_name :: string
  Cls_messages :: "int \<rightharpoonup> Message"

text \<open>\<^verbatim>\<open>for msg in messages: self._messages[msg.id_] = msg\<close>\<close>

definition Cls_init :: "int \<Rightarrow> string \<Rightarrow> Message list \<Rightarrow> error + Cls" where
  "Cls_init ident name messages =
     (if ident < 0 then Inl (IdNegative ident)
      else if ident > 0xFF then Inl (IdTooLarge ident)
      else Inr \<lparr>Cls_id = ident, Cls_name = name,
                Cls_messages = fold (\<lambda>msg m. m(Message_id msg \<mapsto> msg)) messages Map.empty\<rparr>)"

definition Cls_contains :: "Cls \<Rightarrow> int \<Rightarrow> bool" where
  "Cls_contains self item = (Cls_messages self item \<noteq> None)"

text \<open>
  \<^verbatim>\<open>name, nt = self._messages[msg_id].parse(payload)\<close>; the message object in the
  dictionary is the one that \<^verbatim>\<open>parse\<close> assigns to.
\<close>

definition Cls_parse ::
  "builtins \<Rightarrow> Cls \<Rightarrow> int \<Rightarrow> string \<Rightarrow> ((error + (string \<times> string \<times> pyval)) \<times> Cls) option" where
  "Cls_parse bi self msg_id payload =
     (case Cls_messages self msg_id of
        None \<Rightarrow> Some (Inl (KeyError msg_id), self)
      | Some msg \<Rightarrow>
          (case Message_parse bi msg payload of
             None \<Rightarrow> None
           | Some (Inl e, msg') \<Rightarrow>
               Some (Inl e, self\<lparr>Cls_messages := (Cls_messages self)(msg_id \<mapsto> msg')\<rparr>)
           | Some (Inr (name, nt), msg') \<Rightarrow>
               Some (Inr (Cls_name self, name, nt),
                     self\<lparr>Cls_messages := (Cls_messages self)(msg_id \<mapsto> msg')\<rparr>)))"

subsection \<open>Parser\<close>

text \<open>
  \<^verbatim>\<open>str\<close> of a tuple of integers in Python 2: the text of the tuple, each integer in
  decimal, as in \<^verbatim>\<open>str((181, 98)) == '(181, 98)'\<close>.
\<close>

fun dec :: "nat \<Rightarrow> string" where
  "dec n = (if n < 10 then [''0123456789'' ! n] else dec (n div 10) @ [''0123456789'' ! (n mod 10)])"

definition int_repr :: "int \<Rightarrow> string" where
  "int_repr n = (if n < 0 then ''-'' @ dec (nat (- n)) else dec (nat n))"

definition str_tuple :: "int list \<Rightarrow> string" where
  "str_tuple xs =
     (case xs of
        [] \<Rightarrow> ''()''
      | [x] \<Rightarrow> ''('' @ int_repr x @ '',)''
      | x # ys \<Rightarrow> ''('' @ int_repr x @ concat (map (\<lambda>y. '', '' @ int_repr y) ys) @ '')'')"

text \<open>\<^verbatim>\<open>PREFIX = str((0xB5, 0x62))\<close>\<close>

definition PREFIX :: string where
  "PREFIX = str_tuple [0xB5, 0x62]"

record Parser =
  Parser_classes :: "int \<rightharpoonup> Cls"

definition Parser_init :: "Cls list \<Rightarrow> Parser" where
  "Parser_init classes =
     \<lparr>Parser_classes = fold (\<lambda>cls m. m(Cls_id cls \<mapsto> cls)) classes Map.empty\<rparr>"

text \<open>
  The byte source: the bytes still to come. \<^verbatim>\<open>stream.read(n)\<close> gives the next \<open>n\<close>
  bytes, or the fewer that are left, and at the end of the data the empty string, on
  every later call too.
\<close>

definition stream_read :: "nat \<Rightarrow> string \<Rightarrow> string \<times> string" where
  "stream_read n stream = (take n stream, drop n stream)"

text \<open>\<^verbatim>\<open>xs[-n:]\<close>: the last \<open>n\<close> elements, all of them when \<open>n\<close> is 0 or too large.\<close>

definition py_suffix :: "nat \<Rightarrow> 'a list \<Rightarrow> 'a list" where
  "py_suffix n xs = (if n = 0 then xs else drop (length xs - n) xs)"

text \<open>
  \<^verbatim>\<open>_read_until\<close>: the loop over \<^verbatim>\<open>c = stream.read(1)\<close> with the bytes read so far in
  \<open>line\<close>. It returns \<open>line\<close> and the stream after the bytes it has read.
\<close>

fun read_until_loop :: "string \<Rightarrow> int option \<Rightarrow> string \<Rightarrow> string \<Rightarrow> string \<times> string" where
  "read_until_loop terminator limit line [] = (line, [])"
| "read_until_loop terminator limit line (c # stream) =
     (let line' = line @ [c]
      in if py_suffix (length terminator) line' = terminator then (line', stream)
         else if (case limit of None \<Rightarrow> False | Some sz \<Rightarrow> int (length line') \<ge> sz)
           then (line', stream)
         else read_until_loop terminator limit line' stream)"

definition read_until :: "string \<Rightarrow> string \<Rightarrow> int option \<Rightarrow> string \<times> string" where
  "read_until stream terminator limit = read_until_loop terminator limit [] stream"

text \<open>\<^verbatim>\<open>_generate_fletcher_checksum\<close>: the two running sums, returned as \<^verbatim>\<open>str((check_a, check_b))\<close>.\<close>

definition fletcher_sums :: "string \<Rightarrow> int \<times> int" where
  "fletcher_sums payload =
     fold (\<lambda>char (check_a, check_b).
             (let a = (check_a + of_char char) AND 0xFF
              in (a, (check_b + a) AND 0xFF)))
          payload (0, 0)"

definition generate_fletcher_checksum :: "string \<Rightarrow> string" where
  "generate_fletcher_checksum payload =
     (case fletcher_sums payload of (check_a, check_b) \<Rightarrow> str_tuple [check_a, check_b])"

text \<open>
  The search loop of \<^verbatim>\<open>receive_from\<close>: \<^verbatim>\<open>_read_until\<close> is called again until the last two
  bytes of what it returns are equal to \<^verbatim>\<open>PREFIX\<close>. Nothing else ends the loop, so the
  function is partial; \<open>None\<close> is "no return".
\<close>

partial_function (option) seek_prefix :: "string \<Rightarrow> string option" where
  "seek_prefix stream =
     (case read_until stream PREFIX None of
        (buff, stream') \<Rightarrow>
          if py_suffix 2 buff = PREFIX then Some stream' else seek_prefix stream')"

declare seek_prefix.simps [code]

text \<open>What \<^verbatim>\<open>receive_from\<close> returns: \<^verbatim>\<open>(None, None, None)\<close>, or the class name, the message
  name and the named tuple.\<close>

datatype received = Skipped | Decoded string string pyval

text \<open>
  \<^verbatim>\<open>receive_from\<close> after the search, from \<^verbatim>\<open>buff = stream.read(4)\<close> on.
  \<^verbatim>\<open>struct.unpack(u'BBH', buff)\<close> reads two bytes and a 16-bit integer in native (little-endian)
  order. The result comes with the stream and the parser as the call leaves them.
  Formatting the message of the checksum error with \<^verbatim>\<open>{:x}\<close> raises a ValueError of its
  own on the characters of a Python 2 string; either way a ValueError leaves the call.
\<close>

definition receive_frame ::
  "builtins \<Rightarrow> Parser \<Rightarrow> string \<Rightarrow> bool \<Rightarrow> ((error + received) \<times> string \<times> Parser) option" where
  "receive_frame bi self stream ignoreunsupported =
     (case stream_read 4 stream of (buff, stream1) \<Rightarrow>
      if length buff \<noteq> 4 then Some (Inl (ShortRead (length buff) 4), stream1, self)
      else
        (let msg_cls = (of_char (buff ! 0) :: int);
             msg_id = (of_char (buff ! 1) :: int);
             len = (of_char (buff ! 2) :: nat) + 256 * of_char (buff ! 3)
         in case Parser_classes self msg_cls of
              None \<Rightarrow>
                if ignoreunsupported then Some (Inr Skipped, stream1, self)
                else Some (Inl (UnsupportedClass msg_id msg_cls), stream1, self)
            | Some cls \<Rightarrow>
                if \<not> Cls_contains cls msg_id then
                  (if ignoreunsupported then Some (Inr Skipped, stream1, self)
                   else Some (Inl (UnsupportedMessage msg_id msg_cls), stream1, self))
                else
                  (case stream_read len stream1 of (body, stream2) \<Rightarrow>
                   let buff' = buff @ body
                   in if length buff' \<noteq> 4 + len
                      then Some (Inl (ShortRead (length buff') (4 + len)), stream2, self)
                      else
                        (case stream_read 2 stream2 of (checksum_sup, stream3) \<Rightarrow>
                         if length checksum_sup \<noteq> 2
                         then Some (Inl (ShortRead (length buff') 2), stream3, self)
                         else
                           (let checksum_cal = generate_fletcher_checksum buff'
                            in if checksum_cal \<noteq> checksum_sup
                               then Some (Inl (ChecksumMismatch checksum_cal checksum_sup),
                                          stream3, self)
                               else
                                 (case Cls_parse bi cls msg_id (drop 4 buff') of
                                    None \<Rightarrow> None
                                  | Some (Inl e, cls') \<Rightarrow>
                                      Some (Inl e, stream3,
                                            self\<lparr>Parser_classes :=
                                              (Parser_classes self)(msg_cls \<mapsto> cls')\<rparr>)
                                  | Some (Inr (cn, mn, nt), cls') \<Rightarrow>
                                      Some (Inr (Decoded cn mn nt), stream3,
                                            self\<lparr>Parser_classes :=
                                              (Parser_classes self)(msg_cls \<mapsto> cls')\<rparr>)))))))"

definition receive_from ::
  "builtins \<Rightarrow> Parser \<Rightarrow> string \<Rightarrow> bool \<Rightarrow> bool \<Rightarrow> ((error + received) \<times> string \<times> Parser) option" where
  "receive_from bi self stream skippreamble ignoreunsupported =
     (case (if skippreamble then Some stream else seek_prefix stream) of
        None \<Rightarrow> None
      | Some stream0 \<Rightarrow> receive_frame bi self stream0 ignoreunsupported)"

subsection \<open>Notions used to state the properties\<close>

text \<open>
  The size \<open>B\<close> of the descriptors of a message outside its repeated block and the size
  \<open>R\<close> of one repetition of the block, both as sums of item sizes.
\<close>

definition base_size :: "Message \<Rightarrow> nat" where
  "base_size m =
     packed_size (concat (map Descriptor_fmt (filter (\<lambda>d. \<not> repeated_block d) (Message_fields m))))"

fun Descriptor_unit_size :: "Descriptor \<Rightarrow> nat" where
  "Descriptor_unit_size (DElem e) = 0"
| "Descriptor_unit_size (DRepeated r) =
     packed_size (concat (map Element_fmt (RepeatedBlock_fields r)))"

definition repeat_size :: "Message \<Rightarrow> nat" where
  "repeat_size m =
     (case Message_repeated_block m of
        None \<Rightarrow> 0
      | Some i \<Rightarrow> Descriptor_unit_size (Message_fields m ! i))"

text \<open>The number of repetitions a decoded record holds under the name of the repeated block.\<close>

definition repetitions :: "Message \<Rightarrow> string \<times> pyval \<Rightarrow> nat option" where
  "repetitions m rec =
     (case Message_repeated_block m of
        None \<Rightarrow> None
      | Some i \<Rightarrow>
          (case (Descriptor_name (Message_fields m ! i), snd rec) of
             (Some n, PyNT t kvs) \<Rightarrow>
               (case map_of kvs n of Some (PyList xs) \<Rightarrow> Some (length xs) | _ \<Rightarrow> None)
           | _ \<Rightarrow> None))"

text \<open>
  A stand-in for the builtins \<^verbatim>\<open>int\<close> and \<^verbatim>\<open>float\<close> on values of another type, for
  the evaluation of concrete examples (none of which reaches them).
\<close>

definition no_conversion :: builtins where
  "no_conversion =
     \<lparr>py_int = (\<lambda>v. Inl (BuiltinError ''int'')),
      py_float = (\<lambda>v. Inl (BuiltinError ''float''))\<rparr>"

subsection \<open>An example schema\<close>

text \<open>
  A message with a 16-bit field \<open>a\<close> (two bytes) and a repeated block of a 16-bit
  unsigned \<open>x\<close> and a 16-bit signed \<open>y\<close> (four bytes for one repetition), as
  \<^verbatim>\<open>Message(1, 'EX', [Field('a', 'U2'), RepeatedBlock('blk', [Field('x', 'U2'), Field('y', 'I2')])])\<close>
  constructs it.
\<close>

definition example_fields :: "Descriptor list" where
  "example_fields =
     [DElem (EField \<lparr>Field_name = ''a'', Field_type = ''U2'', Field_len = 1\<rparr>),
      DRepeated (RepeatedBlock_init ''blk''
        [EField \<lparr>Field_name = ''x'', Field_type = ''U2'', Field_len = 1\<rparr>,
         EField \<lparr>Field_name = ''y'', Field_type = ''I2'', Field_len = 1\<rparr>])]"

definition example_message :: Message where
  "example_message =
     \<lparr>Message_id = 1, Message_name = ''EX'', Message_fields = example_fields,
      Message_repeated_block = Some 1\<rparr>"

subsection \<open>Schemas of integer fields\<close>

text \<open>
  The descriptors whose \<^verbatim>\<open>parse\<close> cannot raise on an iterator of integers: a PadByte, a
  Field of an integer type with a length of at least 1, and a BitField of a known type.
\<close>

fun Element_plain :: "Element \<Rightarrow> bool" where
  "Element_plain (EPad p) = True"
| "Element_plain (EField f) =
     (Field_type f \<in> set [''U1'', ''I1'', ''U2'', ''I2'', ''U4'', ''I4''] \<and> 1 \<le> Field_len f)"
| "Element_plain (EBitField b) = (BitField_types (BitField_type b) \<noteq> None)"

fun Descriptor_plain :: "Descriptor \<Rightarrow> bool" where
  "Descriptor_plain (DElem e) = Element_plain e"
| "Descriptor_plain (DRepeated r) = list_all Element_plain (RepeatedBlock_fields r)"

text \<open>The number of values \<^verbatim>\<open>struct.unpack\<close> yields for a format.\<close>

definition item_values :: "nat \<times> char \<Rightarrow> nat" where
  "item_values item =
     (case item of (n, c) \<Rightarrow> if c = CHR ''x'' then 0 else if c = CHR ''s'' then 1 else n)"

definition fmt_values :: "fmt \<Rightarrow> nat" where
  "fmt_values f = sum_list (map item_values f)"

text \<open>The integer values, and the format characters that unpack to integers or to nothing.\<close>

fun is_int :: "pyval \<Rightarrow> bool" where
  "is_int (PyInt w) = True"
| "is_int v = False"

definition int_code :: "char \<Rightarrow> bool" where
  "int_code c = (c \<in> set ''xBbHhIi'')"

subsection \<open>A schema that needs alignment padding\<close>

text \<open>
  \<^verbatim>\<open>Message(2, 'MIS', [Field('a', 'U1'), RepeatedBlock('blk', [Field('x', 'U2')])])\<close>:
  one byte outside the block and two bytes for one repetition; the format is \<^verbatim>\<open>'BH'\<close>,
  \<^verbatim>\<open>'BHH'\<close>, ... and the 16-bit items are placed at even offsets.
\<close>

definition misaligned_fields :: "Descriptor list" where
  "misaligned_fields =
     [DElem (EField \<lparr>Field_name = ''a'', Field_type = ''U1'', Field_len = 1\<rparr>),
      DRepeated (RepeatedBlock_init ''blk''
        [EField \<lparr>Field_name = ''x'', Field_type = ''U2'', Field_len = 1\<rparr>])]"

definition misaligned_message :: Message where
  "misaligned_message =
     \<lparr>Message_id = 2, Message_name = ''MIS'', Message_fields = misaligned_fields,
      Message_repeated_block = Some 1\<rparr>"

subsection \<open>An example parser\<close>

text \<open>
  A parser with the one class \<^verbatim>\<open>Cls(5, 'ACK', [Message(1, 'ACK', [Field('clsID', 'U1'), Field('msgID', 'U1')])])\<close>.
\<close>

definition ack_message :: Message where
  "ack_message =
     \<lparr>Message_id = 1, Message_name = ''ACK'',
      Message_fields =
        [DElem (EField \<lparr>Field_name = ''clsID'', Field_type = ''U1'', Field_len = 1\<rparr>),
         DElem (EField \<lparr>Field_name = ''msgID'', Field_type = ''U1'', Field_len = 1\<rparr>)],
      Message_repeated_block = None\<rparr>"

definition ack_cls :: Cls where
  "ack_cls = \<lparr>Cls_id = 5, Cls_name = ''ACK'', Cls_messages = [1 \<mapsto> ack_message]\<rparr>"

definition example_parser :: Parser where
  "example_parser = \<lparr>Parser_classes = [5 \<mapsto> ack_cls]\<rparr>"

section \<open>Properties\<close>

subsection \<open>Flag: the mask and the extracted bit range\<close>

lemma fold_or_bit:
  "bit (fold (\<lambda>i m. m OR push_bit (nat i) (1::int)) xs m0) n
     \<longleftrightarrow> bit m0 n \<or> (\<exists>i\<in>set xs. nat i = n)"
  by (induction xs arbitrary: m0) (auto simp: bit_or_iff bit_push_bit_iff bit_exp_iff)

lemma Flag_mask_loop_bit:
  "0 \<le> start \<Longrightarrow> bit (Flag_mask_loop start stop) n \<longleftrightarrow> start \<le> int n \<and> int n < stop"
proof -
  assume s: "0 \<le> start"
  have "(\<exists>i\<in>{start..stop - 1}. nat i = n) \<longleftrightarrow> start \<le> int n \<and> int n < stop"
  proof
    assume "\<exists>i\<in>{start..stop - 1}. nat i = n"
    then show "start \<le> int n \<and> int n < stop" using s by auto
  next
    assume "start \<le> int n \<and> int n < stop"
    then have "int n \<in> {start..stop - 1}" "nat (int n) = n" by auto
    then show "\<exists>i\<in>{start..stop - 1}. nat i = n" by blast
  qed
  then show ?thesis unfolding Flag_mask_loop_def fold_or_bit by simp
qed

text \<open>
  C5. A Flag constructed with \<open>0 \<le> start < stop \<le> 32\<close> is accepted by the constructor,
  and its \<^verbatim>\<open>parse\<close> of any integer word \<open>w\<close> returns the name together with
  \<^verbatim>\<open>(w >> start) & ((1 << (stop - start)) - 1)\<close>: masking with the precomputed mask of
  the bits \<open>[start, stop)\<close> and then shifting right by \<open>start\<close> extracts that bit range.
\<close>

theorem Flag_parse_extracts_bit_range:
  assumes "0 \<le> start" and "start < stop" and "stop \<le> 32"
  shows "\<exists>f. Flag_init name start stop = Inr f \<and>
             Flag_parse f w =
               (name, drop_bit (nat start) w AND (push_bit (nat (stop - start)) 1 - 1))"
proof -
  let ?f = "\<lparr>Flag_name = name, Flag_start = start, Flag_stop = stop,
                Flag_mask = Flag_mask_loop start stop\<rparr>"
  have init: "Flag_init name start stop = Inr ?f"
    using assms by (simp add: Flag_init_def)
  have "drop_bit (nat start) (w AND Flag_mask_loop start stop)
      = drop_bit (nat start) w AND mask (nat (stop - start))"
  proof (rule bit_eqI)
    fix n
    show "bit (drop_bit (nat start) (w AND Flag_mask_loop start stop)) n
        = bit (drop_bit (nat start) w AND mask (nat (stop - start))) n"
      using assms by (auto simp: bit_drop_bit_eq bit_and_iff bit_mask_iff Flag_mask_loop_bit)
  qed
  then have "Flag_parse ?f w =
      (name, drop_bit (nat start) w AND (push_bit (nat (stop - start)) 1 - 1))"
    by (simp add: Flag_parse_def mask_eq_exp_minus_1 push_bit_eq_mult)
  with init show ?thesis by blast
qed

text \<open>The flag of bits 2 to 4 applied to the word \<open>0x2C\<close> gives 3.\<close>

theorem Flag_parse_extracts_bit_range_witness:
  "(0::int) \<le> 2 \<and> (2::int) < 5 \<and> (5::int) \<le> 32 \<and>
   (\<exists>f. Flag_init ''f'' 2 5 = Inr f \<and> Flag_parse f 0x2C = (''f'', 3))"
  using Flag_parse_extracts_bit_range [of 2 5 "''f''" "0x2C"] by simp

subsection \<open>Field: the length check of the constructor\<close>

text \<open>
  C9. The claim is that constructing a Field with an element count below 1 raises. The
  constructor builds the ValueError for a negative count and drops it: \<^verbatim>\<open>Field('a', 'U1', -1)\<close>
  is constructed, with the length \<open>-1\<close> stored.
\<close>

theorem Field_init_negative_len_constructs:
  "Field_init ''a'' ''U1'' (- 1) =
     Inr \<lparr>Field_name = ''a'', Field_type = ''U1'', Field_len = - 1\<rparr>"
  by (simp add: Field_init_def Field_types_def)

subsection \<open>The struct module: sizes and values of a concatenated format\<close>

lemma align_up_one [simp]: "align_up off 1 = off" "align_up off (Suc 0) = off"
  by (simp_all add: align_up_def)

lemma code_x [simp]: "code_align (CHR ''x'') = 1" "code_size (CHR ''x'') = 1"
  by (simp_all add: code_align_def code_size_def)

lemma unpack_item_x [simp]: "unpack_item n (CHR ''x'') bs = []"
  by (simp add: unpack_item_def)

lemma calcsize_from_append:
  "calcsize_from off (a @ b) = calcsize_from (calcsize_from off a) b"
  by (induction a arbitrary: off) auto

lemma unpack_from_append:
  "unpack_from off (a @ b) buf = unpack_from off a buf @ unpack_from (calcsize_from off a) b buf"
  by (induction a arbitrary: off) (auto simp: Let_def)

lemma calcsize_from_pad:
  "calcsize_from off (replicate k (Suc 0, CHR ''x'')) = off + k"
  by (induction k arbitrary: off) auto

lemma unpack_from_pad:
  "unpack_from off (replicate k (Suc 0, CHR ''x'')) buf = []"
  by (induction k arbitrary: off) (auto simp: unpack_item_def Let_def)

subsection \<open>PadByte\<close>

text \<open>
  C10. A PadByte constructed with \<open>repeat = r\<close>, \<open>r \<ge> 0\<close>, has a format of \<open>r + 1\<close> bytes;
  anywhere in a format it moves the offset by exactly \<open>r + 1\<close> bytes, \<^verbatim>\<open>struct.unpack\<close>
  yields no value for it, and its \<^verbatim>\<open>parse\<close> returns no field and leaves the iterator as it
  is. The default \<^verbatim>\<open>PadByte()\<close> occupies one byte.
\<close>

theorem PadByte_occupies_repeat_plus_one:
  assumes "0 \<le> r"
  shows "struct_calcsize (PadByte_fmt (PadByte_init r)) = nat r + 1 \<and>
         struct_calcsize (pre @ PadByte_fmt (PadByte_init r) @ rest)
           = calcsize_from (struct_calcsize pre + (nat r + 1)) rest \<and>
         unpack_from 0 (pre @ PadByte_fmt (PadByte_init r) @ rest) buf
           = unpack_from 0 pre buf @ unpack_from (struct_calcsize pre + (nat r + 1)) rest buf \<and>
         Element_parse bi (EPad (PadByte_init r)) it = Inr (None, it) \<and>
         struct_calcsize (PadByte_fmt PadByte_default) = 1"
proof -
  have k: "nat (r + 1) = nat r + 1" using assms by simp
  show ?thesis
    by (simp add: struct_calcsize_def PadByte_fmt_def PadByte_init_def PadByte_default_def
        PadByte_parse_def k calcsize_from_append unpack_from_append calcsize_from_pad
        unpack_from_pad Let_def)
qed

text \<open>\<^verbatim>\<open>PadByte(5)\<close> is six bytes; between a byte and a 16-bit word the word lands at offset 8.\<close>

theorem PadByte_occupies_repeat_plus_one_witness:
  "(0::int) \<le> 5 \<and> struct_calcsize (PadByte_fmt (PadByte_init 5)) = 6 \<and>
   struct_calcsize ([(1, CHR ''B'')] @ PadByte_fmt (PadByte_init 5) @ [(1, CHR ''H'')]) = 10 \<and>
   unpack_from 0 ([(1, CHR ''B'')] @ PadByte_fmt (PadByte_init 5) @ [(1, CHR ''H'')])
      [CHR 0x01, CHR 0x02, CHR 0x03, CHR 0x04, CHR 0x05, CHR 0x06, CHR 0x07, CHR 0x08, CHR 0x09, CHR 0x0A]
     = [PyInt 1, PyInt 2569]"
  using PadByte_occupies_repeat_plus_one [of 5 "[(1, CHR ''B'')]" "[(1, CHR ''H'')]"
     "[CHR 0x01, CHR 0x02, CHR 0x03, CHR 0x04, CHR 0x05, CHR 0x06, CHR 0x07, CHR 0x08, CHR 0x09, CHR 0x0A]"]
  by (simp add: struct_calcsize_def code_align_def code_size_def align_up_def unpack_item_def
      chunks_def le_uint_def Let_def)

subsection \<open>Message.parse: what a call does to the schema object\<close>

lemma set_repeat_twice: "set_repeat (set_repeat m i a) i b = set_repeat m i b"
proof (cases "i < length (Message_fields m)")
  case True
  then show ?thesis
    by (cases "Message_fields m ! i") (simp_all add: set_repeat_def)
next
  case False
  then show ?thesis by (simp add: set_repeat_def list_update_beyond)
qed

lemma set_repeat_rb [simp]: "Message_repeated_block (set_repeat m i v) = Message_repeated_block m"
  by (simp add: set_repeat_def)

lemma Message_parse_loop_state:
  assumes "Message_parse_loop self n = Some (res, self')"
  shows "case Message_repeated_block self of None \<Rightarrow> self' = self
         | Some i \<Rightarrow> self' = self \<or> (\<exists>v. self' = set_repeat self i v)"
proof -
  have "case Message_repeated_block self of None \<Rightarrow> snd y = self
         | Some i \<Rightarrow> snd y = self \<or> (\<exists>v. snd y = set_repeat self i v)"
    if "Message_parse_loop self n = Some y" for y
    using that
  proof (rule Message_parse_loop.raw_induct[rotated])
    fix loop :: "Message \<Rightarrow> nat \<Rightarrow> ((error + unit) \<times> Message) option"
      and self n y
    assume IH: "\<And>s k z. loop s k = Some z \<Longrightarrow>
        (case Message_repeated_block s of None \<Rightarrow> snd z = s
         | Some i \<Rightarrow> snd z = s \<or> (\<exists>v. snd z = set_repeat s i v))"
      and eq: "(let fmt_len = struct_calcsize (Message_fmt self)
        in if fmt_len = n then Some (Inr (), self)
           else if n < fmt_len then Some (Inl (LengthMismatch fmt_len n), self)
           else case Message_repeated_block self of
                  None \<Rightarrow> Some (Inl (LengthMismatch fmt_len n), self)
                | Some i \<Rightarrow> loop (set_repeat self i (get_repeat self i + 1)) n) = Some y"
    show "case Message_repeated_block self of None \<Rightarrow> snd y = self
         | Some i \<Rightarrow> snd y = self \<or> (\<exists>v. snd y = set_repeat self i v)"
    proof (cases "Message_repeated_block self")
      case None
      with eq show ?thesis by (auto simp: Let_def split: if_splits)
    next
      case (Some i)
      show ?thesis
      proof (cases "struct_calcsize (Message_fmt self) < n")
        case False
        with eq Some show ?thesis by (auto simp: Let_def split: if_splits)
      next
        case True
        with eq Some have "loop (set_repeat self i (get_repeat self i + 1)) n = Some y"
          by (auto simp: Let_def split: if_splits)
        from IH[OF this] Some show ?thesis
          by (auto simp: set_repeat_twice)
      qed
    qed
  qed
  from this[OF assms] show ?thesis by (simp split: option.splits)
qed

lemma Message_parse_state:
  assumes "Message_parse bi m p = Some (res, m')"
  shows "case Message_repeated_block m of None \<Rightarrow> m' = m
         | Some i \<Rightarrow> (\<exists>v. m' = set_repeat m i v)"
proof (cases "Message_repeated_block m")
  case None
  from assms obtain r where "Message_parse_loop m (length p) = Some (r, m')"
    by (auto simp: Message_parse_def None split: option.splits sum.splits prod.splits)
  from Message_parse_loop_state[OF this] None show ?thesis by simp
next
  case (Some i)
  from assms obtain r where "Message_parse_loop (set_repeat m i 0) (length p) = Some (r, m')"
    by (auto simp: Message_parse_def Some split: option.splits sum.splits prod.splits)
  from Message_parse_loop_state[OF this] Some show ?thesis
    by (auto simp: set_repeat_twice)
qed

lemma Message_parse_reset:
  "Message_parse bi (set_repeat m i v) p = Message_parse bi m p"
  if "Message_repeated_block m = Some i"
  using that by (simp add: Message_parse_def set_repeat_twice)


text \<open>
  C7. The claim is that no field of a Message or of its descriptors is modified by
  \<^verbatim>\<open>Message.parse\<close>. The code keeps the repeat count on the RepeatedBlock object: parsing a
  ten-byte payload with the example schema leaves the count 1 where the fresh schema has 0.
\<close>

theorem Message_parse_modifies_schema_counterexample:
  "Message_parse no_conversion example_message (replicate 10 (CHR 0xFF)) =
     Some (Inr (''EX'', PyNT ''EX'' [(''a'', PyInt 65535),
             (''blk'', PyList [PyNT ''blk'' [(''x'', PyInt 65535), (''y'', PyInt (- 1))],
                               PyNT ''blk'' [(''x'', PyInt 65535), (''y'', PyInt (- 1))]])]),
           set_repeat example_message 1 1) \<and>
   set_repeat example_message 1 1 \<noteq> example_message \<and>
   get_repeat example_message 1 = 0 \<and>
   get_repeat (set_repeat example_message 1 1) 1 = 1"
  by code_simp

text \<open>
  C7, as the code has it. Whenever \<^verbatim>\<open>Message.parse\<close> returns or raises, the schema object
  it leaves is the one it was given except for the repeat count of the message's
  RepeatedBlock: a message without RepeatedBlock is unchanged, and in a message with one
  no other field of the message or of its descriptors is modified.
\<close>

theorem Message_parse_modifies_only_repeat:
  assumes "Message_parse bi m p = Some (res, m')"
  shows "case Message_repeated_block m of
           None \<Rightarrow> m' = m
         | Some i \<Rightarrow> \<exists>v. m' = set_repeat m i v"
  using assms by (rule Message_parse_state)

theorem Message_parse_modifies_only_repeat_witness:
  "Message_parse no_conversion example_message (replicate 6 (CHR 0x01)) =
     Some (Inr (''EX'', PyNT ''EX'' [(''a'', PyInt 257),
             (''blk'', PyList [PyNT ''blk'' [(''x'', PyInt 257), (''y'', PyInt 257)]])]),
           example_message) \<and>
   (\<exists>v. example_message = set_repeat example_message 1 v)"
proof -
  have run: "Message_parse no_conversion example_message (replicate 6 (CHR 0x01)) =
     Some (Inr (''EX'', PyNT ''EX'' [(''a'', PyInt 257),
             (''blk'', PyList [PyNT ''blk'' [(''x'', PyInt 257), (''y'', PyInt 257)]])]),
           example_message)"
    by code_simp
  from Message_parse_modifies_only_repeat [OF run]
  have "\<exists>v. example_message = set_repeat example_message 1 v"
    by (simp add: example_message_def)
  with run show ?thesis by simp
qed

subsection \<open>Message.parse: a second decode on the same schema object\<close>

text \<open>
  C8. If a first call \<^verbatim>\<open>parse(p1)\<close> on a schema object returns or raises, a second call
  \<^verbatim>\<open>parse(p2)\<close> on the object as the first call left it gives exactly what \<^verbatim>\<open>parse(p2)\<close>
  gives on the object before the first call, in particular on a fresh schema: the call
  starts by assigning 0 to the repeat count.
\<close>

theorem Message_parse_second_decode_independent:
  assumes "Message_parse bi m p1 = Some (r1, m1)"
  shows "Message_parse bi m1 p2 = Message_parse bi m p2"
proof (cases "Message_repeated_block m")
  case None
  with Message_parse_state[OF assms] show ?thesis by simp
next
  case (Some i)
  with Message_parse_state[OF assms] obtain v where "m1 = set_repeat m i v" by auto
  then show ?thesis using Some by (simp add: Message_parse_reset)
qed

text \<open>Two repetitions (ten bytes), then three (fourteen bytes), on the example schema.\<close>

theorem Message_parse_second_decode_independent_witness:
  "Message_parse no_conversion example_message (replicate 10 (CHR 0xFF)) =
     Some (Inr (''EX'', PyNT ''EX'' [(''a'', PyInt 65535),
             (''blk'', PyList [PyNT ''blk'' [(''x'', PyInt 65535), (''y'', PyInt (- 1))],
                               PyNT ''blk'' [(''x'', PyInt 65535), (''y'', PyInt (- 1))]])]),
           set_repeat example_message 1 1) \<and>
   Message_parse no_conversion (set_repeat example_message 1 1) (replicate 14 (CHR 0x01)) =
     Message_parse no_conversion example_message (replicate 14 (CHR 0x01)) \<and>
   Message_parse no_conversion example_message (replicate 14 (CHR 0x01)) =
     Some (Inr (''EX'', PyNT ''EX'' [(''a'', PyInt 257),
             (''blk'', PyList [PyNT ''blk'' [(''x'', PyInt 257), (''y'', PyInt 257)],
                               PyNT ''blk'' [(''x'', PyInt 257), (''y'', PyInt 257)],
                               PyNT ''blk'' [(''x'', PyInt 257), (''y'', PyInt 257)]])]),
           set_repeat example_message 1 2)"
proof -
  have run1: "Message_parse no_conversion example_message (replicate 10 (CHR 0xFF)) =
     Some (Inr (''EX'', PyNT ''EX'' [(''a'', PyInt 65535),
             (''blk'', PyList [PyNT ''blk'' [(''x'', PyInt 65535), (''y'', PyInt (- 1))],
                               PyNT ''blk'' [(''x'', PyInt 65535), (''y'', PyInt (- 1))]])]),
           set_repeat example_message 1 1)"
    by code_simp
  have run2: "Message_parse no_conversion example_message (replicate 14 (CHR 0x01)) =
     Some (Inr (''EX'', PyNT ''EX'' [(''a'', PyInt 257),
             (''blk'', PyList [PyNT ''blk'' [(''x'', PyInt 257), (''y'', PyInt 257)],
                               PyNT ''blk'' [(''x'', PyInt 257), (''y'', PyInt 257)],
                               PyNT ''blk'' [(''x'', PyInt 257), (''y'', PyInt 257)]])]),
           set_repeat example_message 1 2)"
    by code_simp
  from Message_parse_second_decode_independent [OF run1, of "replicate 14 (CHR 0x01)"] run1 run2
  show ?thesis by simp
qed

subsection \<open>Message: the shape of a constructed message\<close>

lemma find_repeated_block_given:
  "find_repeated_block flds k (Some i0) = Inr rb \<Longrightarrow> rb = Some i0 \<and> (\<exists>es. flds = map DElem es)"
proof (induction flds arbitrary: k)
  case Nil
  then show ?case by simp
next
  case (Cons f fs)
  show ?case
  proof (cases f)
    case (DElem e)
    with Cons.prems have "find_repeated_block fs (k + 1) (Some i0) = Inr rb" by simp
    from Cons.IH[OF this] obtain es where "rb = Some i0" "fs = map DElem es" by auto
    then have "f # fs = map DElem (e # es)" using DElem by simp
    then have "\<exists>es. f # fs = map DElem es" ..
    with \<open>rb = Some i0\<close> show ?thesis by simp
  next
    case (DRepeated r)
    with Cons.prems show ?thesis by simp
  qed
qed

lemma find_repeated_block_none:
  "find_repeated_block flds k None = Inr rb \<Longrightarrow>
     (rb = None \<and> (\<exists>es. flds = map DElem es)) \<or>
     (\<exists>pre r post. rb = Some (k + length pre) \<and> flds = map DElem pre @ DRepeated r # map DElem post)"
proof (induction flds arbitrary: k)
  case Nil
  then show ?case by simp
next
  case (Cons f fs)
  show ?case
  proof (cases f)
    case (DElem e)
    with Cons.prems have "find_repeated_block fs (k + 1) None = Inr rb" by simp
    from Cons.IH[OF this] show ?thesis
    proof
      assume "rb = None \<and> (\<exists>es. fs = map DElem es)"
      then obtain es where "rb = None" "fs = map DElem es" by auto
      then have "f # fs = map DElem (e # es)" using DElem by simp
      then have "\<exists>es. f # fs = map DElem es" ..
      with \<open>rb = None\<close> show ?thesis by simp
    next
      assume "\<exists>pre r post. rb = Some (k + 1 + length pre) \<and> fs = map DElem pre @ DRepeated r # map DElem post"
      then obtain pre r post where "rb = Some (k + 1 + length pre)"
        "fs = map DElem pre @ DRepeated r # map DElem post" by auto
      then have "rb = Some (k + length (e # pre))"
        "f # fs = map DElem (e # pre) @ DRepeated r # map DElem post" using DElem by simp_all
      then have "\<exists>pre r post. rb = Some (k + length pre) \<and>
          f # fs = map DElem pre @ DRepeated r # map DElem post" by (intro exI conjI)
      then show ?thesis by simp
    qed
  next
    case (DRepeated r)
    with Cons.prems have "find_repeated_block fs (k + 1) (Some k) = Inr rb" by simp
    from find_repeated_block_given[OF this] obtain es where "rb = Some k" "fs = map DElem es" by auto
    then have "rb = Some (k + length ([]::Element list))"
      "f # fs = map DElem [] @ DRepeated r # map DElem es" using DRepeated by simp_all
    then have "\<exists>pre r post. rb = Some (k + length pre) \<and>
        f # fs = map DElem pre @ DRepeated r # map DElem post" by (intro exI conjI)
    then show ?thesis by simp
  qed
qed

lemma Message_init_shape:
  assumes "Message_init ident name flds = Inr m"
  shows "Message_fields m = flds \<and> Message_name m = name \<and> Message_id m = ident \<and>
         distinct (field_names flds) \<and>
         ((Message_repeated_block m = None \<and> (\<exists>es. flds = map DElem es)) \<or>
          (\<exists>pre r post. Message_repeated_block m = Some (length pre) \<and>
              flds = map DElem pre @ DRepeated r # map DElem post))"
proof -
  from assms obtain rb where rb: "find_repeated_block flds 0 None = Inr rb"
    and m: "m = \<lparr>Message_id = ident, Message_name = name, Message_fields = flds,
                     Message_repeated_block = rb\<rparr>"
    and d: "distinct (field_names flds)"
    by (auto simp: Message_init_def split: if_splits sum.splits)
  from find_repeated_block_none[OF rb] m d show ?thesis by auto
qed

subsection \<open>Message.parse: the search for the repeat count\<close>

lemma set_repeat_fields:
  assumes "Message_fields m = map DElem pre @ DRepeated r # map DElem post"
  shows "Message_fields (set_repeat m (length pre) v)
           = map DElem pre @ DRepeated (r\<lparr>RepeatedBlock_repeat := v\<rparr>) # map DElem post"
  using assms by (simp add: set_repeat_def nth_append list_update_append)

lemma get_set_repeat:
  assumes "Message_fields m = map DElem pre @ DRepeated r # map DElem post"
  shows "get_repeat (set_repeat m (length pre) v) (length pre) = v"
  using set_repeat_fields[OF assms, of v] by (simp add: get_repeat_def nth_append)

lemma Message_parse_loop_found:
  assumes rb: "Message_repeated_block m = Some i"
    and gr: "\<And>v. get_repeat (set_repeat m i v) i = v"
    and H: "\<And>k. struct_calcsize (Message_fmt (set_repeat m i k)) = B + (k + 1) * R"
    and R: "0 < R"
    and vk: "v \<le> k" and L: "L = B + (k + 1) * R"
  shows "Message_parse_loop (set_repeat m i v) L = Some (Inr (), set_repeat m i k)"
  using vk
proof (induction "k - v" arbitrary: v)
  case 0
  then have "v = k" by simp
  then show ?case
    by (subst Message_parse_loop.simps) (simp add: H L)
next
  case (Suc d)
  then have lt: "v < k" and d: "d = k - (v + 1)" and le: "v + 1 \<le> k" by simp_all
  have "(v + 1) * R < (k + 1) * R" using lt R by simp
  then have less: "B + (v + 1) * R < L" using L by simp
  have "Message_parse_loop (set_repeat m i v) L
      = Message_parse_loop (set_repeat m i (v + 1)) L"
    using less by (subst Message_parse_loop.simps) (simp add: H rb gr set_repeat_twice)
  also have "\<dots> = Some (Inr (), set_repeat m i k)"
    by (rule Suc.hyps(1)[OF d le])
  finally show ?case .
qed

lemma Message_parse_loop_overshoot:
  assumes rb: "Message_repeated_block m = Some i"
    and gr: "\<And>v. get_repeat (set_repeat m i v) i = v"
    and H: "\<And>k. struct_calcsize (Message_fmt (set_repeat m i k)) = B + (k + 1) * R"
    and vk: "v \<le> k" and over: "L < B + (k + 1) * R"
    and below: "\<And>j. v \<le> j \<Longrightarrow> j < k \<Longrightarrow> B + (j + 1) * R < L"
  shows "Message_parse_loop (set_repeat m i v) L
           = Some (Inl (LengthMismatch (B + (k + 1) * R) L), set_repeat m i k)"
  using vk below
proof (induction "k - v" arbitrary: v)
  case 0
  then have "v = k" by simp
  then show ?case
    using over by (subst Message_parse_loop.simps) (simp add: H)
next
  case (Suc d)
  then have lt: "v < k" and d: "d = k - (v + 1)" and le: "v + 1 \<le> k" by simp_all
  have less: "B + (v + 1) * R < L" using Suc.prems(2)[of v] lt by simp
  have "Message_parse_loop (set_repeat m i v) L
      = Message_parse_loop (set_repeat m i (v + 1)) L"
    using less by (subst Message_parse_loop.simps) (simp add: H rb gr set_repeat_twice)
  also have "\<dots> = Some (Inl (LengthMismatch (B + (k + 1) * R) L), set_repeat m i k)"
    by (rule Suc.hyps(1)[OF d le]) (use Suc.prems(2) in simp)
  finally show ?case .
qed

text \<open>Between two consecutive totals: the first total above a length that is no total.\<close>

lemma first_overshoot:
  assumes R: "0 < (R::nat)" and no: "\<And>k. L \<noteq> B + (k + 1) * R"
  shows "\<exists>k. L < B + (k + 1) * R \<and> (\<forall>j<k. B + (j + 1) * R < L)"
proof -
  have ex: "\<exists>k. L < B + (k + 1) * R"
  proof
    have "L < (L + 1) * R" using R by (cases R) simp_all
    then show "L < B + (L + 1) * R" by simp
  qed
  define k where "k = (LEAST k. L < B + (k + 1) * R)"
  have k1: "L < B + (k + 1) * R" unfolding k_def using ex by (rule LeastI_ex)
  have k2: "B + (j + 1) * R < L" if "j < k" for j
  proof -
    have "\<not> L < B + (j + 1) * R" using that unfolding k_def by (rule not_less_Least)
    with no[of j] show ?thesis by simp
  qed
  from k1 k2 show ?thesis by blast
qed

subsection \<open>Message.parse: the repetitions of a decoded record\<close>

lemma Descriptors_parse_append:
  "Descriptors_parse bi (a @ b) it =
     (case Descriptors_parse bi a it of
        Inl e \<Rightarrow> Inl e
      | Inr (k1, it1) \<Rightarrow>
          (case Descriptors_parse bi b it1 of
             Inl e \<Rightarrow> Inl e
           | Inr (k2, it2) \<Rightarrow> Inr (k1 @ k2, it2)))"
  by (induction a arbitrary: it) (auto split: sum.splits option.splits)

lemma Field_parse_name:
  "Field_parse bi f it = Inr (kv, it') \<Longrightarrow> map_option fst kv = Some (Field_name f)"
  by (auto simp: Field_parse_def Let_def split: sum.splits prod.splits if_splits list.splits)

lemma BitField_parse_name:
  "BitField_parse b it = Inr (kv, it') \<Longrightarrow> map_option fst kv = Some (BitField_name b)"
  by (auto simp: BitField_parse_def split: sum.splits list.splits)

lemma Element_parse_name:
  "Element_parse bi e it = Inr (kv, it') \<Longrightarrow> map_option fst kv = Element_name e"
  by (cases e) (auto simp: PadByte_parse_def dest: Field_parse_name BitField_parse_name)

lemma Descriptor_parse_name:
  "Descriptor_parse bi d it = Inr (kv, it') \<Longrightarrow> map_option fst kv = Descriptor_name d"
  by (cases d) (auto simp: RepeatedBlock_parse_def dest: Element_parse_name split: sum.splits)

lemma Descriptors_parse_names:
  "Descriptors_parse bi flds it = Inr (kvs, it') \<Longrightarrow> map fst kvs = field_names flds"
proof (induction flds arbitrary: it kvs it')
  case Nil
  then show ?case by (simp add: field_names_def)
next
  case (Cons d ds)
  from Cons.prems obtain kv it1 kvs1 where
    d: "Descriptor_parse bi d it = Inr (kv, it1)" and
    ds: "Descriptors_parse bi ds it1 = Inr (kvs1, it')" and
    kvs: "kvs = (case kv of None \<Rightarrow> kvs1 | Some p \<Rightarrow> p # kvs1)"
    by (auto split: sum.splits)
  from Cons.IH[OF ds] have "map fst kvs1 = field_names ds" .
  with Descriptor_parse_name[OF d] kvs show ?case
    by (cases kv; cases "Descriptor_name d") (auto simp: field_names_def)
qed

lemma RepeatedBlock_loop_length:
  "RepeatedBlock_loop bi r n it = Inr (resp, it') \<Longrightarrow> length resp = n"
  by (induction n arbitrary: it resp it') (auto split: sum.splits)

lemma Descriptors_parse_repetitions:
  assumes "Descriptors_parse bi (map DElem pre @ DRepeated r # map DElem post) it = Inr (kvs, it')"
    and "distinct (field_names (map DElem pre @ DRepeated r # map DElem post))"
  shows "\<exists>reps. map_of kvs (RepeatedBlock_name r) = Some (PyList reps) \<and>
           length reps = RepeatedBlock_repeat r + 1"
proof -
  from assms(1) obtain k1 it1 k2 where
    p1: "Descriptors_parse bi (map DElem pre) it = Inr (k1, it1)" and
    p2: "Descriptors_parse bi (DRepeated r # map DElem post) it1 = Inr (k2, it')" and
    kvs: "kvs = k1 @ k2"
    by (auto simp: Descriptors_parse_append split: sum.splits)
  from p2 obtain reps it2 k3 where
    l: "RepeatedBlock_loop bi r (RepeatedBlock_repeat r + 1) it1 = Inr (reps, it2)" and
    k2: "k2 = (RepeatedBlock_name r, PyList reps) # k3"
    by (auto simp: RepeatedBlock_parse_def simp del: RepeatedBlock_loop.simps split: sum.splits)
  have len: "length reps = RepeatedBlock_repeat r + 1"
    by (rule RepeatedBlock_loop_length[OF l])
  have "map fst k1 = field_names (map DElem pre)" by (rule Descriptors_parse_names[OF p1])
  moreover have "RepeatedBlock_name r \<notin> set (field_names (map DElem pre))"
    using assms(2) by (auto simp: field_names_def List.map_filter_def)
  ultimately have "RepeatedBlock_name r \<notin> fst ` set k1" by (metis set_map)
  then have "map_of kvs (RepeatedBlock_name r) = Some (PyList reps)"
    by (simp add: kvs k2 map_add_def map_of_eq_None_iff[symmetric])
  with len show ?thesis by blast
qed

lemma Message_decode_repetitions:
  assumes f: "Message_fields m = map DElem pre @ DRepeated r # map DElem post"
    and rb: "Message_repeated_block m = Some (length pre)"
    and d: "distinct (field_names (Message_fields m))"
    and dec: "Message_decode bi (set_repeat m (length pre) k) p = Inr rec"
  shows "repetitions m rec = Some (k + 1)"
proof -
  let ?r = "r\<lparr>RepeatedBlock_repeat := k\<rparr>"
  have f': "Message_fields (set_repeat m (length pre) k)
      = map DElem pre @ DRepeated ?r # map DElem post"
    by (rule set_repeat_fields[OF f])
  from dec obtain vals kvs it where
    "Descriptors_parse bi (map DElem pre @ DRepeated ?r # map DElem post) vals = Inr (kvs, it)"
    and rec: "rec = (Message_name (set_repeat m (length pre) k),
                     PyNT (Message_name (set_repeat m (length pre) k)) kvs)"
    by (auto simp: Message_decode_def f' split: sum.splits)
  moreover have "distinct (field_names (map DElem pre @ DRepeated ?r # map DElem post))"
    using d by (simp add: f field_names_def List.map_filter_def)
  ultimately obtain reps where "map_of kvs (RepeatedBlock_name ?r) = Some (PyList reps)"
    "length reps = RepeatedBlock_repeat ?r + 1"
    using Descriptors_parse_repetitions by blast
  then show ?thesis
    by (simp add: repetitions_def rb f rec nth_append)
qed

subsection \<open>The struct module: formats without alignment padding\<close>

lemma packed_size_append [simp]: "packed_size (a @ b) = packed_size a + packed_size b"
  by (simp add: packed_size_def)

lemma packed_size_Nil [simp]: "packed_size [] = 0"
  by (simp add: packed_size_def)

lemma packed_size_replicate [simp]: "packed_size (concat (replicate n f)) = n * packed_size f"
  by (induction n) simp_all

lemma align_up_dvd:
  assumes "a dvd off"
  shows "align_up off a = off"
proof (cases "a = 0")
  case True
  with assms show ?thesis by (simp add: align_up_def)
next
  case False
  from assms obtain k where k: "off = k * a" by (metis dvd_def mult.commute)
  from False obtain b where b: "a = Suc b" by (cases a) simp_all
  have d: "(off + a - 1) div a = k"
    by (rule div_nat_eqI) (simp_all add: k b)
  show ?thesis unfolding align_up_def d by (simp add: k)
qed

lemma calcsize_from_aligned:
  assumes "\<And>n c. (n, c) \<in> set f \<Longrightarrow> code_align c dvd A \<and> A dvd n * code_size c"
    and "A dvd off"
  shows "calcsize_from off f = off + packed_size f"
  using assms
proof (induction f arbitrary: off)
  case Nil
  then show ?case by simp
next
  case (Cons item f)
  obtain n c where item: "item = (n, c)" by (cases item)
  have a: "code_align c dvd A" and s: "A dvd n * code_size c"
    using Cons.prems(1)[of n c] item by simp_all
  have "code_align c dvd off" using a Cons.prems(2) by (rule dvd_trans)
  then have al: "align_up off (code_align c) = off" by (rule align_up_dvd)
  have "A dvd off + n * code_size c" using Cons.prems(2) s by simp
  then have "calcsize_from (off + n * code_size c) f = off + n * code_size c + packed_size f"
    using Cons.prems(1) by (intro Cons.IH) auto
  then show ?case by (simp add: item al packed_size_def)
qed

lemma example_message_sizes: "\<And>k. struct_calcsize (Message_fmt (set_repeat example_message 1 k)) = 2 + (k + 1) * 4"
proof -
  fix k
  have f: "Message_fmt (set_repeat example_message 1 k)
      = [(1, CHR ''H'')] @ concat (replicate (k + 1) [(1, CHR ''H''), (1, CHR ''h'')])"
    by (simp add: Message_fmt_def set_repeat_def example_message_def example_fields_def
        RepeatedBlock_fmt_def RepeatedBlock_init_def Field_fmt_def Field_types_def)
  have "calcsize_from 0 ([(1, CHR ''H'')] @ concat (replicate (k + 1) [(1, CHR ''H''), (1, CHR ''h'')]))
      = 0 + packed_size ([(1, CHR ''H'')] @ concat (replicate (k + 1) [(1, CHR ''H''), (1, CHR ''h'')]))"
    by (rule calcsize_from_aligned[where A = 2])
      (auto simp: code_align_def code_size_def split: if_splits)
  also have "\<dots> = 2 + (k + 1) * 4"
  proof -
    have "packed_size [(1, CHR ''H'')] = 2" "packed_size [(1, CHR ''H''), (1, CHR ''h'')] = 4"
      by (simp_all add: packed_size_def code_size_def)
    then show ?thesis by (simp only: packed_size_append packed_size_replicate)
  qed
  finally show "struct_calcsize (Message_fmt (set_repeat example_message 1 k)) = 2 + (k + 1) * 4"
    by (simp only: struct_calcsize_def f)
qed

subsection \<open>Message.parse: schemas of integer fields decode without error\<close>

lemma length_chunks [simp]: "length (chunks n k bs) = n"
  by (simp add: chunks_def)

lemma length_unpack_item: "length (unpack_item n c bs) = item_values (n, c)"
  by (simp add: unpack_item_def item_values_def)

lemma length_unpack_from: "length (unpack_from off f buf) = fmt_values f"
  by (induction f arbitrary: off) (auto simp: fmt_values_def Let_def length_unpack_item)

lemma fmt_values_append [simp]: "fmt_values (a @ b) = fmt_values a + fmt_values b"
  by (simp add: fmt_values_def)

lemma fmt_values_Nil [simp]: "fmt_values [] = 0"
  by (simp add: fmt_values_def)

lemma fmt_values_replicate [simp]: "fmt_values (concat (replicate n f)) = n * fmt_values f"
  by (induction n) simp_all

lemma unpack_item_ints: "int_code c \<Longrightarrow> list_all is_int (unpack_item n c bs)"
  by (auto simp: unpack_item_def int_code_def list_all_iff)

lemma unpack_from_ints:
  "list_all (\<lambda>(n, c). int_code c) f \<Longrightarrow> list_all is_int (unpack_from off f buf)"
  by (induction f arbitrary: off) (auto simp: Let_def unpack_item_ints)

lemma map_result_conv_int: "list_all is_int vs \<Longrightarrow> map_result (conv_int bi) vs = Inr vs"
proof (induction vs)
  case Nil
  then show ?case by simp
next
  case (Cons v vs)
  then obtain w where "v = PyInt w" by (cases v) simp_all
  with Cons show ?case by (simp add: conv_int_def)
qed

lemma map_result_flags:
  "\<exists>kvs. map_result (\<lambda>x. Flag_parse_value x (PyInt w)) fl = Inr kvs"
  by (induction fl) (auto simp: Flag_parse_value_def)

lemma list_all_drop: "list_all P xs \<Longrightarrow> list_all P (drop n xs)"
  by (auto simp: list_all_iff dest: in_set_dropD)

lemma list_all_take: "list_all P xs \<Longrightarrow> list_all P (take n xs)"
  by (auto simp: list_all_iff dest: in_set_takeD)

lemma Field_plain_fmt:
  assumes "Field_type f \<in> set [''U1'', ''I1'', ''U2'', ''I2'', ''U4'', ''I4'']" and "1 \<le> Field_len f"
  shows "\<exists>c. Field_fmt f = [(nat (Field_len f), c)] \<and> int_code c \<and> c \<noteq> CHR ''x'' \<and> c \<noteq> CHR ''s''"
proof -
  have n: "(if Field_len f > 1 then nat (Field_len f) else 1) = nat (Field_len f)"
    using assms(2) by auto
  from assms(1) show ?thesis
    unfolding Field_fmt_def n by (auto simp: Field_types_def int_code_def)
qed

lemma Field_parse_plain:
  assumes t: "Field_type f \<in> set [''U1'', ''I1'', ''U2'', ''I2'', ''U4'', ''I4'']"
    and l: "1 \<le> Field_len f"
    and ints: "list_all is_int it" and enough: "nat (Field_len f) \<le> length it"
  shows "\<exists>kv. Field_parse bi f it = Inr (kv, drop (nat (Field_len f)) it)"
proof -
  have nS: "Field_type f \<noteq> ''S''" using t by auto
  have tk: "take_next (nat (Field_len f)) it
      = Inr (take (nat (Field_len f)) it, drop (nat (Field_len f)) it)"
    using enough by (simp add: take_next_def)
  have cv: "Field_convert bi (Field_type f) (take (nat (Field_len f)) it)
      = Inr (take (nat (Field_len f)) it)"
    using t ints by (simp add: Field_convert_def map_result_conv_int list_all_take)
  have ne: "take (nat (Field_len f)) it \<noteq> []" using l enough by auto
  then obtain v vs where vs: "take (nat (Field_len f)) it = v # vs"
    by (cases "take (nat (Field_len f)) it") simp_all
  have tk': "take_next (nat (Field_len f)) it = Inr (v # vs, drop (nat (Field_len f)) it)"
    using tk vs by simp
  have cv': "Field_convert bi (Field_type f) (v # vs) = Inr (v # vs)"
    using cv vs by simp
  have "Field_parse bi f it =
      (if Field_len f = 1 then Inr (Some (Field_name f, v), drop (nat (Field_len f)) it)
       else Inr (Some (Field_name f, PyList (v # vs)), drop (nat (Field_len f)) it))"
    by (simp only: Field_parse_def Let_def nS if_False tk' cv' sum.case prod.case list.case)
  then show ?thesis by (cases "Field_len f = 1") auto
qed

lemma Element_parse_plain:
  assumes "Element_plain e" and "list_all is_int it" and "fmt_values (Element_fmt e) \<le> length it"
  shows "\<exists>kv. Element_parse bi e it = Inr (kv, drop (fmt_values (Element_fmt e)) it)"
proof (cases e)
  case (EPad p)
  have "fmt_values (PadByte_fmt p) = 0"
    by (simp add: PadByte_fmt_def fmt_values_def item_values_def)
  with EPad show ?thesis by (simp add: PadByte_parse_def)
next
  case (EField f)
  with assms(1) have t: "Field_type f \<in> set [''U1'', ''I1'', ''U2'', ''I2'', ''U4'', ''I4'']"
    and l: "1 \<le> Field_len f" by simp_all
  from Field_plain_fmt[OF t l] have v: "fmt_values (Field_fmt f) = nat (Field_len f)"
    by (auto simp: fmt_values_def item_values_def)
  with assms(3) EField have "nat (Field_len f) \<le> length it" by simp
  from Field_parse_plain[OF t l assms(2) this] EField v show ?thesis by simp
next
  case (EBitField b)
  with assms(1) obtain c where c: "BitField_types (BitField_type b) = Some c" by auto
  then have "c \<in> set ''BHI''" by (auto simp: BitField_types_def split: if_splits)
  then have v: "fmt_values (BitField_fmt b) = 1"
    by (auto simp: BitField_fmt_def c fmt_values_def item_values_def)
  with assms(3) EBitField obtain x xs where it: "it = x # xs" by (cases it) simp_all
  with assms(2) obtain w where "x = PyInt w" by (cases x) simp_all
  with it EBitField v map_result_flags[of w "BitField_subfields b"] show ?thesis
    by (auto simp: BitField_parse_def)
qed

lemma Element_plain_codes:
  "Element_plain e \<Longrightarrow> list_all (\<lambda>(n, c). int_code c) (Element_fmt e)"
proof (cases e)
  case (EPad p)
  then show ?thesis by (simp add: PadByte_fmt_def int_code_def list_all_iff)
next
  case (EField f)
  assume "Element_plain e"
  with EField have "Field_type f \<in> set [''U1'', ''I1'', ''U2'', ''I2'', ''U4'', ''I4'']"
    and "1 \<le> Field_len f" by simp_all
  from Field_plain_fmt[OF this] EField show ?thesis by auto
next
  case (EBitField b)
  assume "Element_plain e"
  with EBitField obtain c where c: "BitField_types (BitField_type b) = Some c" by auto
  then have "int_code c" by (auto simp: BitField_types_def int_code_def split: if_splits)
  with EBitField c show ?thesis by (simp add: BitField_fmt_def)
qed

lemma Elements_parse_plain:
  assumes "list_all Element_plain es" and "list_all is_int it"
    and "fmt_values (concat (map Element_fmt es)) \<le> length it"
  shows "\<exists>kvs. Elements_parse bi es it
           = Inr (kvs, drop (fmt_values (concat (map Element_fmt es))) it)"
  using assms
proof (induction es arbitrary: it)
  case Nil
  then show ?case by simp
next
  case (Cons e es)
  let ?n = "fmt_values (Element_fmt e)"
  from Cons.prems have pe: "Element_plain e" and pes: "list_all Element_plain es"
    and le: "?n \<le> length it" by simp_all
  from Element_parse_plain[OF pe Cons.prems(2) le] obtain kv where
    e: "Element_parse bi e it = Inr (kv, drop ?n it)" by blast
  have "list_all is_int (drop ?n it)" using Cons.prems(2) by (rule list_all_drop)
  moreover have "fmt_values (concat (map Element_fmt es)) \<le> length (drop ?n it)"
    using Cons.prems(3) by simp
  ultimately obtain kvs where
    "Elements_parse bi es (drop ?n it)
       = Inr (kvs, drop (fmt_values (concat (map Element_fmt es))) (drop ?n it))"
    using Cons.IH[OF pes] by blast
  with e show ?case by (simp add: add.commute)
qed

lemma RepeatedBlock_loop_plain:
  assumes "list_all Element_plain (RepeatedBlock_fields r)" and "list_all is_int it"
    and "n * fmt_values (concat (map Element_fmt (RepeatedBlock_fields r))) \<le> length it"
  shows "\<exists>resp. RepeatedBlock_loop bi r n it
           = Inr (resp, drop (n * fmt_values (concat (map Element_fmt (RepeatedBlock_fields r)))) it)"
  using assms(2,3)
proof (induction n arbitrary: it)
  case 0
  then show ?case by simp
next
  case (Suc n)
  let ?u = "fmt_values (concat (map Element_fmt (RepeatedBlock_fields r)))"
  from Suc.prems(2) have le: "?u \<le> length it" and rest: "n * ?u \<le> length (drop ?u it)"
    by simp_all
  from Elements_parse_plain[OF assms(1) Suc.prems(1) le] obtain kvs where
    e: "Elements_parse bi (RepeatedBlock_fields r) it = Inr (kvs, drop ?u it)" by blast
  have "list_all is_int (drop ?u it)" using Suc.prems(1) by (rule list_all_drop)
  from Suc.IH[OF this rest] obtain resp where
    "RepeatedBlock_loop bi r n (drop ?u it) = Inr (resp, drop (n * ?u) (drop ?u it))" by blast
  with e show ?case by (simp add: add.commute)
qed

lemma Descriptor_parse_plain:
  assumes "Descriptor_plain d" and "list_all is_int it"
    and "fmt_values (Descriptor_fmt d) \<le> length it"
  shows "\<exists>kv. Descriptor_parse bi d it = Inr (kv, drop (fmt_values (Descriptor_fmt d)) it)"
proof (cases d)
  case (DElem e)
  with assms Element_parse_plain[of e it bi] show ?thesis by simp
next
  case (DRepeated r)
  let ?u = "fmt_values (concat (map Element_fmt (RepeatedBlock_fields r)))"
  from DRepeated assms(1) have p: "list_all Element_plain (RepeatedBlock_fields r)" by simp
  from DRepeated assms(3) have "(RepeatedBlock_repeat r + 1) * ?u \<le> length it"
    by (simp add: RepeatedBlock_fmt_def)
  from RepeatedBlock_loop_plain[OF p assms(2) this] obtain resp where
    "RepeatedBlock_loop bi r (RepeatedBlock_repeat r + 1) it
       = Inr (resp, drop ((RepeatedBlock_repeat r + 1) * ?u) it)" by blast
  with DRepeated show ?thesis
    by (simp add: RepeatedBlock_parse_def RepeatedBlock_fmt_def del: RepeatedBlock_loop.simps)
qed

lemma Descriptors_parse_plain:
  assumes "list_all Descriptor_plain ds" and "list_all is_int it"
    and "fmt_values (concat (map Descriptor_fmt ds)) \<le> length it"
  shows "\<exists>kvs it'. Descriptors_parse bi ds it = Inr (kvs, it')"
  using assms
proof (induction ds arbitrary: it)
  case Nil
  then show ?case by simp
next
  case (Cons d ds)
  let ?n = "fmt_values (Descriptor_fmt d)"
  from Cons.prems have pd: "Descriptor_plain d" and pds: "list_all Descriptor_plain ds"
    and le: "?n \<le> length it" by simp_all
  from Descriptor_parse_plain[OF pd Cons.prems(2) le] obtain kv where
    d: "Descriptor_parse bi d it = Inr (kv, drop ?n it)" by blast
  have "list_all is_int (drop ?n it)" using Cons.prems(2) by (rule list_all_drop)
  moreover have "fmt_values (concat (map Descriptor_fmt ds)) \<le> length (drop ?n it)"
    using Cons.prems(3) by simp
  ultimately obtain kvs it' where "Descriptors_parse bi ds (drop ?n it) = Inr (kvs, it')"
    using Cons.IH[OF pds] by blast
  with d show ?case by simp
qed

lemma Descriptor_plain_codes:
  "Descriptor_plain d \<Longrightarrow> list_all (\<lambda>(n, c). int_code c) (Descriptor_fmt d)"
proof (cases d)
  case (DElem e)
  assume "Descriptor_plain d"
  with DElem show ?thesis by (simp add: Element_plain_codes)
next
  case (DRepeated r)
  assume "Descriptor_plain d"
  with DRepeated have "\<forall>e\<in>set (RepeatedBlock_fields r). Element_plain e"
    by (simp add: list_all_iff)
  then have "\<forall>e\<in>set (RepeatedBlock_fields r). list_all (\<lambda>(n, c). int_code c) (Element_fmt e)"
    by (simp add: Element_plain_codes)
  with DRepeated show ?thesis
    by (auto simp: RepeatedBlock_fmt_def list_all_iff)
qed

lemma Message_decode_plain:
  assumes p: "list_all Descriptor_plain (Message_fields m)"
    and len: "length payload = struct_calcsize (Message_fmt m)"
  shows "\<exists>rec. Message_decode bi m payload = Inr rec"
proof -
  let ?vals = "unpack_from 0 (Message_fmt m) payload"
  have u: "struct_unpack (Message_fmt m) payload = Inr ?vals"
    using len by (simp add: struct_unpack_def)
  have c: "\<forall>item\<in>set (Descriptor_fmt d). int_code (snd item)"
    if "d \<in> set (Message_fields m)" for d
  proof -
    from that p have "Descriptor_plain d" by (simp add: list_all_iff)
    from Descriptor_plain_codes[OF this] show ?thesis by (auto simp: list_all_iff)
  qed
  have "list_all (\<lambda>(n, c). int_code c) (Message_fmt m)"
    using c by (fastforce simp: Message_fmt_def list_all_iff)
  then have ints: "list_all is_int ?vals" by (rule unpack_from_ints)
  have "fmt_values (concat (map Descriptor_fmt (Message_fields m))) \<le> length ?vals"
    by (simp add: length_unpack_from Message_fmt_def)
  from Descriptors_parse_plain[OF p ints this] obtain kvs it' where
    "Descriptors_parse bi (Message_fields m) ?vals = Inr (kvs, it')" by blast
  with u show ?thesis by (simp add: Message_decode_def)
qed

lemma Descriptor_plain_set_repeat [simp]:
  "Descriptor_plain (Descriptor_set_repeat v d) = Descriptor_plain d"
  by (cases d) simp_all

lemma plain_set_repeat:
  "list_all Descriptor_plain (Message_fields (set_repeat m i v))
     = list_all Descriptor_plain (Message_fields m)"
proof (cases "i < length (Message_fields m)")
  case True
  have "map Descriptor_plain ((Message_fields m)[i := Descriptor_set_repeat v (Message_fields m ! i)])
      = map Descriptor_plain (Message_fields m)"
    using True by (simp add: map_update list_update_same_conv)
  then show ?thesis
    by (simp add: set_repeat_def list_all_iff) (metis (no_types) list.set_map image_iff)
next
  case False
  then show ?thesis by (simp add: set_repeat_def list_update_beyond)
qed

subsection \<open>Message.parse: resolving the repeat count\<close>

lemma Message_parse_found:
  assumes init: "Message_init ident name flds = Inr m"
    and rb: "Message_repeated_block m = Some i"
    and R: "0 < R"
    and H: "\<And>k. struct_calcsize (Message_fmt (set_repeat m i k)) = B + (k + 1) * R"
    and L: "length payload = B + (k + 1) * R"
  shows "Message_parse bi m payload
           = Some (Message_decode bi (set_repeat m i k) payload, set_repeat m i k)"
    and "Message_decode bi (set_repeat m i k) payload = Inr rec \<Longrightarrow> repetitions m rec = Some (k + 1)"
    and "list_all Descriptor_plain flds \<Longrightarrow> \<exists>rec. Message_decode bi (set_repeat m i k) payload = Inr rec"
proof -
  from Message_init_shape[OF init] rb obtain pre r post where
    i: "i = length pre" and f: "Message_fields m = map DElem pre @ DRepeated r # map DElem post"
    and flds: "Message_fields m = flds" and d: "distinct (field_names flds)"
    by auto
  have gr: "\<And>v. get_repeat (set_repeat m i v) i = v"
    unfolding i by (rule get_set_repeat[OF f])
  have "Message_parse_loop (set_repeat m i 0) (length payload) = Some (Inr (), set_repeat m i k)"
    by (rule Message_parse_loop_found[OF rb gr H R _ L]) simp
  then show "Message_parse bi m payload
           = Some (Message_decode bi (set_repeat m i k) payload, set_repeat m i k)"
    by (simp add: Message_parse_def rb)
  show "repetitions m rec = Some (k + 1)"
    if "Message_decode bi (set_repeat m i k) payload = Inr rec"
    using that rb d unfolding i flds[symmetric]
    by (intro Message_decode_repetitions[OF f]) simp_all
  show "\<exists>rec. Message_decode bi (set_repeat m i k) payload = Inr rec"
    if "list_all Descriptor_plain flds"
  proof (rule Message_decode_plain)
    show "list_all Descriptor_plain (Message_fields (set_repeat m i k))"
      using that by (simp add: plain_set_repeat flds)
    show "length payload = struct_calcsize (Message_fmt (set_repeat m i k))"
      by (simp add: H L)
  qed
qed

lemma Message_parse_overshoot:
  assumes init: "Message_init ident name flds = Inr m"
    and rb: "Message_repeated_block m = Some i"
    and H: "\<And>k. struct_calcsize (Message_fmt (set_repeat m i k)) = B + (k + 1) * R"
    and over: "length payload < B + (k + 1) * R"
    and below: "\<And>j. j < k \<Longrightarrow> B + (j + 1) * R < length payload"
  shows "Message_parse bi m payload
           = Some (Inl (LengthMismatch (B + (k + 1) * R) (length payload)), set_repeat m i k)"
proof -
  from Message_init_shape[OF init] rb obtain pre r post where
    i: "i = length pre" and f: "Message_fields m = map DElem pre @ DRepeated r # map DElem post"
    by auto
  have gr: "\<And>v. get_repeat (set_repeat m i v) i = v"
    unfolding i by (rule get_set_repeat[OF f])
  have "Message_parse_loop (set_repeat m i 0) (length payload)
      = Some (Inl (LengthMismatch (B + (k + 1) * R) (length payload)), set_repeat m i k)"
    by (rule Message_parse_loop_overshoot[OF rb gr H _ over below]) simp_all
  then show ?thesis by (simp add: Message_parse_def rb)
qed

lemma example_message_facts:
  "Message_init 1 ''EX'' example_fields = Inr example_message"
  "Message_repeated_block example_message = Some 1"
  "base_size example_message = 2"
  "repeat_size example_message = 4"
  "list_all Descriptor_plain example_fields"
  by code_simp+

text \<open>
  C3. The claim takes the total tried at count \<open>k\<close> to be \<open>B + (k + 1) * R\<close>. The code
  compares the payload length with \<^verbatim>\<open>struct.calcsize(self.fmt)\<close>, and the format has no
  byte-order prefix, so the size includes native alignment padding. For the schema of one
  byte followed by a block of one 16-bit field (\<open>B = 1\<close>, \<open>R = 2\<close>) the size at count 0 is
  4: a payload of \<open>3 = B + 1 * R\<close> bytes is rejected where the claim has it accepted with
  one repetition.
\<close>

theorem Message_parse_repeat_resolution_counterexample:
  "Message_init 2 ''MIS'' misaligned_fields = Inr misaligned_message \<and>
   Message_repeated_block misaligned_message = Some 1 \<and>
   base_size misaligned_message = 1 \<and> repeat_size misaligned_message = 2 \<and>
   length [CHR 0x01, CHR 0x02, CHR 0x03] = 1 + (0 + 1) * 2 \<and>
   struct_calcsize (Message_fmt misaligned_message) = 4 \<and>
   Message_parse no_conversion misaligned_message [CHR 0x01, CHR 0x02, CHR 0x03]
     = Some (Inl (LengthMismatch 4 3), misaligned_message)"
  by code_simp

text \<open>
  C3, for the schemas whose format needs no alignment padding. Let a constructed message
  have a RepeatedBlock, sizes \<open>B\<close> outside the block and \<open>R > 0\<close> for one repetition, and
  let the struct size of its format at every repeat count \<open>k\<close> be \<open>B + (k + 1) * R\<close>.
  Then for a payload of length \<open>L\<close>, \<^verbatim>\<open>Message.parse\<close> returns, and:
  \<^item> if \<open>L = B + (k + 1) * R\<close> for some \<open>k\<close>, the search stops at that \<open>k\<close>, the payload is
    decoded with the count \<open>k\<close>, every record the decoding returns holds \<open>k + 1\<close>
    repetitions, and the decoding does return a record when all fields are integer
    fields;
  \<^item> otherwise the call fails with the length mismatch of the first total above \<open>L\<close>,
    every earlier total being below \<open>L\<close>: every \<open>L\<close> that is not \<open>B\<close> plus a positive
    multiple of \<open>R\<close> is rejected.
\<close>

theorem Message_parse_repeat_resolution:
  assumes "Message_init ident name flds = Inr m"
    and "Message_repeated_block m = Some i"
    and "0 < repeat_size m"
    and "\<And>k. struct_calcsize (Message_fmt (set_repeat m i k))
              = base_size m + (k + 1) * repeat_size m"
  shows "if \<exists>k. length payload = base_size m + (k + 1) * repeat_size m
         then \<exists>k. length payload = base_size m + (k + 1) * repeat_size m \<and>
                Message_parse bi m payload
                  = Some (Message_decode bi (set_repeat m i k) payload, set_repeat m i k) \<and>
                (\<forall>rec. Message_decode bi (set_repeat m i k) payload = Inr rec
                       \<longrightarrow> repetitions m rec = Some (k + 1)) \<and>
                (list_all Descriptor_plain flds
                   \<longrightarrow> (\<exists>rec. Message_decode bi (set_repeat m i k) payload = Inr rec))
         else \<exists>k. Message_parse bi m payload
                  = Some (Inl (LengthMismatch (base_size m + (k + 1) * repeat_size m)
                                (length payload)), set_repeat m i k) \<and>
                length payload < base_size m + (k + 1) * repeat_size m \<and>
                (\<forall>j<k. base_size m + (j + 1) * repeat_size m < length payload)"
proof (cases "\<exists>k. length payload = base_size m + (k + 1) * repeat_size m")
  case True
  then obtain k where L: "length payload = base_size m + (k + 1) * repeat_size m" by blast
  note found = Message_parse_found[OF assms(1,2,3,4) L, of bi]
  have "length payload = base_size m + (k + 1) * repeat_size m \<and>
      Message_parse bi m payload
        = Some (Message_decode bi (set_repeat m i k) payload, set_repeat m i k) \<and>
      (\<forall>rec. Message_decode bi (set_repeat m i k) payload = Inr rec
             \<longrightarrow> repetitions m rec = Some (k + 1)) \<and>
      (list_all Descriptor_plain flds
         \<longrightarrow> (\<exists>rec. Message_decode bi (set_repeat m i k) payload = Inr rec))"
    using L found by blast
  then have "\<exists>k. length payload = base_size m + (k + 1) * repeat_size m \<and>
      Message_parse bi m payload
        = Some (Message_decode bi (set_repeat m i k) payload, set_repeat m i k) \<and>
      (\<forall>rec. Message_decode bi (set_repeat m i k) payload = Inr rec
             \<longrightarrow> repetitions m rec = Some (k + 1)) \<and>
      (list_all Descriptor_plain flds
         \<longrightarrow> (\<exists>rec. Message_decode bi (set_repeat m i k) payload = Inr rec))"
    by (rule exI)
  then show ?thesis unfolding if_P[OF True] .
next
  case False
  then have no: "\<And>k. length payload \<noteq> base_size m + (k + 1) * repeat_size m" by blast
  from first_overshoot[OF assms(3) no] obtain k where
    over: "length payload < base_size m + (k + 1) * repeat_size m"
    and below: "\<forall>j<k. base_size m + (j + 1) * repeat_size m < length payload" by blast
  have "Message_parse bi m payload
      = Some (Inl (LengthMismatch (base_size m + (k + 1) * repeat_size m) (length payload)),
              set_repeat m i k)"
    by (rule Message_parse_overshoot[OF assms(1,2,4) over]) (use below in simp)
  with over below have "Message_parse bi m payload
      = Some (Inl (LengthMismatch (base_size m + (k + 1) * repeat_size m) (length payload)),
              set_repeat m i k) \<and>
      length payload < base_size m + (k + 1) * repeat_size m \<and>
      (\<forall>j<k. base_size m + (j + 1) * repeat_size m < length payload)" by blast
  then have "\<exists>k. Message_parse bi m payload
      = Some (Inl (LengthMismatch (base_size m + (k + 1) * repeat_size m) (length payload)),
              set_repeat m i k) \<and>
      length payload < base_size m + (k + 1) * repeat_size m \<and>
      (\<forall>j<k. base_size m + (j + 1) * repeat_size m < length payload)"
    by (rule exI)
  then show ?thesis unfolding if_not_P[OF False] .
qed

text \<open>The example schema (\<open>B = 2\<close>, \<open>R = 4\<close>) on ten bytes and on eight bytes.\<close>

theorem Message_parse_repeat_resolution_witness:
  "Message_init 1 ''EX'' example_fields = Inr example_message \<and>
   Message_repeated_block example_message = Some 1 \<and>
   0 < repeat_size example_message \<and>
   (\<forall>k. struct_calcsize (Message_fmt (set_repeat example_message 1 k))
         = base_size example_message + (k + 1) * repeat_size example_message) \<and>
   list_all Descriptor_plain example_fields \<and>
   length (replicate 10 (CHR 0xFF)) = base_size example_message + (1 + 1) * repeat_size example_message \<and>
   (\<exists>rec. Message_parse no_conversion example_message (replicate 10 (CHR 0xFF))
            = Some (Inr rec, set_repeat example_message 1 1) \<and>
          repetitions example_message rec = Some 2) \<and>
   (\<forall>k. length (replicate 8 (CHR 0xFF)) \<noteq> base_size example_message + (k + 1) * repeat_size example_message) \<and>
   Message_parse no_conversion example_message (replicate 8 (CHR 0xFF))
     = Some (Inl (LengthMismatch 10 8), set_repeat example_message 1 1)"
proof -
  note f = example_message_facts
  have R: "0 < repeat_size example_message" by (simp add: f)
  have H: "\<And>k. struct_calcsize (Message_fmt (set_repeat example_message 1 k))
      = base_size example_message + (k + 1) * repeat_size example_message"
    by (simp only: f example_message_sizes)
  have no8: "length (replicate 8 (CHR 0xFF)) \<noteq> base_size example_message + (k + 1) * repeat_size example_message" for k
  proof -
    have "(8::nat) \<noteq> 2 + (k + 1) * 4" by presburger
    then show ?thesis by (simp add: f)
  qed
  have yes10: "\<exists>k. length (replicate 10 (CHR 0xFF))
      = base_size example_message + (k + 1) * repeat_size example_message"
    unfolding f by (rule exI[of _ 1]) simp
  note t10 = Message_parse_repeat_resolution [OF f(1) f(2) R H, of "replicate 10 (CHR 0xFF)" no_conversion]
  note t8 = Message_parse_repeat_resolution [OF f(1) f(2) R H, of "replicate 8 (CHR 0xFF)" no_conversion]
  from t10 obtain k where
    L: "length (replicate 10 (CHR 0xFF::char))
        = base_size example_message + (k + 1) * repeat_size example_message" and
    P: "Message_parse no_conversion example_message (replicate 10 (CHR 0xFF))
        = Some (Message_decode no_conversion (set_repeat example_message 1 k) (replicate 10 (CHR 0xFF)),
                set_repeat example_message 1 k)" and
    reps: "\<And>rec. Message_decode no_conversion (set_repeat example_message 1 k) (replicate 10 (CHR 0xFF)) = Inr rec
             \<Longrightarrow> repetitions example_message rec = Some (k + 1)" and
    ok: "list_all Descriptor_plain example_fields
         \<Longrightarrow> \<exists>rec. Message_decode no_conversion (set_repeat example_message 1 k) (replicate 10 (CHR 0xFF)) = Inr rec"
    unfolding if_P[OF yes10] by blast
  from L have k: "k = 1" by (simp add: f)
  from ok[OF f(5)] obtain rec where
    dec: "Message_decode no_conversion (set_repeat example_message 1 k) (replicate 10 (CHR 0xFF)) = Inr rec"
    by blast
  from reps[OF dec] P dec k have ex10:
    "\<exists>rec. Message_parse no_conversion example_message (replicate 10 (CHR 0xFF))
            = Some (Inr rec, set_repeat example_message 1 1) \<and>
          repetitions example_message rec = Some 2"
    by simp
  have none8: "\<not> (\<exists>k. length (replicate 8 (CHR 0xFF::char))
      = base_size example_message + (k + 1) * repeat_size example_message)"
    using no8 by blast
  from t8 obtain j where
    P8: "Message_parse no_conversion example_message (replicate 8 (CHR 0xFF))
      = Some (Inl (LengthMismatch (base_size example_message + (j + 1) * repeat_size example_message)
                    (length (replicate 8 (CHR 0xFF::char)))), set_repeat example_message 1 j)" and
    over: "length (replicate 8 (CHR 0xFF::char))
      < base_size example_message + (j + 1) * repeat_size example_message" and
    below: "\<forall>i<j. base_size example_message + (i + 1) * repeat_size example_message
      < length (replicate 8 (CHR 0xFF::char))"
    unfolding if_not_P[OF none8] by blast
  have j: "j = 1"
  proof -
    from over have "1 \<le> j" by (simp add: f)
    moreover have "j < 2"
    proof (rule ccontr)
      assume "\<not> j < 2"
      then have "1 < j" by simp
      with below show False by (auto simp: f)
    qed
    ultimately show ?thesis by simp
  qed
  from P8 j have run8: "Message_parse no_conversion example_message (replicate 8 (CHR 0xFF))
      = Some (Inl (LengthMismatch 10 8), set_repeat example_message 1 1)"
    by (simp add: f)
  have all8: "\<forall>k. length (replicate 8 (CHR 0xFF::char))
      \<noteq> base_size example_message + (k + 1) * repeat_size example_message"
    using no8 by blast
  have H': "\<forall>k. struct_calcsize (Message_fmt (set_repeat example_message 1 k))
         = base_size example_message + (k + 1) * repeat_size example_message"
    using H by blast
  have ten: "length (replicate 10 (CHR 0xFF::char))
      = base_size example_message + (1 + 1) * repeat_size example_message"
    by (simp add: f)
  from f(1) f(2) R H' f(5) ten ex10 all8 run8 show ?thesis
    by (intro conjI)
qed

subsection \<open>Message.parse: base size 2, repeat unit 4\<close>

text \<open>
  C4. The claim has a payload of length 2 succeed with one repetition. The first total
  the code tries is \<open>B + R = 6\<close>, which is above 2: the call raises the length mismatch
  "expected 6 actual 2".
\<close>

theorem Message_parse_base_2_unit_4_counterexample:
  "Message_init 1 ''EX'' example_fields = Inr example_message \<and>
   Message_repeated_block example_message = Some 1 \<and>
   base_size example_message = 2 \<and> repeat_size example_message = 4 \<and>
   length [CHR 0x01, CHR 0x02] = 2 \<and>
   Message_parse no_conversion example_message [CHR 0x01, CHR 0x02]
     = Some (Inl (LengthMismatch 6 2), example_message)"
  by code_simp

text \<open>
  C4, as the code has it. For a constructed message with a RepeatedBlock, \<open>B = 2\<close>,
  \<open>R = 4\<close>, a format without alignment padding and integer fields: a payload of length 6
  is decoded to a record with 1 repetition, length 10 with 2 repetitions, length 14 with 3
  repetitions; lengths 2 and 8 fail with a length mismatch (expected 6 and expected 10).
\<close>

theorem Message_parse_base_2_unit_4:
  assumes init: "Message_init ident name flds = Inr m"
    and rb: "Message_repeated_block m = Some i"
    and B: "base_size m = 2" and R: "repeat_size m = 4"
    and H: "\<And>k. struct_calcsize (Message_fmt (set_repeat m i k)) = 2 + (k + 1) * 4"
    and plain: "list_all Descriptor_plain flds"
    and l6: "length p6 = 6" and l10: "length p10 = 10" and l14: "length p14 = 14"
    and l2: "length p2 = 2" and l8: "length p8 = 8"
  shows "(\<exists>rec. Message_parse bi m p6 = Some (Inr rec, set_repeat m i 0) \<and>
                repetitions m rec = Some 1) \<and>
         (\<exists>rec. Message_parse bi m p10 = Some (Inr rec, set_repeat m i 1) \<and>
                repetitions m rec = Some 2) \<and>
         (\<exists>rec. Message_parse bi m p14 = Some (Inr rec, set_repeat m i 2) \<and>
                repetitions m rec = Some 3) \<and>
         Message_parse bi m p2 = Some (Inl (LengthMismatch 6 2), set_repeat m i 0) \<and>
         Message_parse bi m p8 = Some (Inl (LengthMismatch 10 8), set_repeat m i 1)"
proof -
  have ok: "\<exists>rec. Message_parse bi m p = Some (Inr rec, set_repeat m i k) \<and>
                 repetitions m rec = Some (k + 1)"
    if L: "length p = 2 + (k + 1) * 4" for p k
  proof -
    note found = Message_parse_found[OF init rb _ H L, of bi]
    from found(3)[OF _ plain] obtain rec where
      dec: "Message_decode bi (set_repeat m i k) p = Inr rec" by auto
    from found(1) found(2)[OF _ dec] dec show ?thesis by simp
  qed
  have bad: "Message_parse bi m p
      = Some (Inl (LengthMismatch (2 + (k + 1) * 4) (length p)), set_repeat m i k)"
    if "length p < 2 + (k + 1) * 4" and "\<And>j. j < k \<Longrightarrow> 2 + (j + 1) * 4 < length p" for p k
    using that by (intro Message_parse_overshoot[OF init rb H]) simp_all
  have "\<exists>rec. Message_parse bi m p6 = Some (Inr rec, set_repeat m i 0) \<and>
                repetitions m rec = Some 1"
    using ok[of p6 0] l6 by simp
  moreover have "\<exists>rec. Message_parse bi m p10 = Some (Inr rec, set_repeat m i 1) \<and>
                repetitions m rec = Some 2"
    using ok[of p10 1] l10 by (simp add: numeral_2_eq_2)
  moreover have "\<exists>rec. Message_parse bi m p14 = Some (Inr rec, set_repeat m i 2) \<and>
                repetitions m rec = Some 3"
    using ok[of p14 2] l14 by (simp add: numeral_3_eq_3 numeral_2_eq_2)
  moreover have "Message_parse bi m p2 = Some (Inl (LengthMismatch 6 2), set_repeat m i 0)"
    using bad[of p2 0] l2 by simp
  moreover have "Message_parse bi m p8 = Some (Inl (LengthMismatch 10 8), set_repeat m i 1)"
  proof -
    have "2 + (j + 1) * 4 < length p8" if "j < 1" for j using that l8 by simp
    with bad[of p8 1] l8 show ?thesis by simp
  qed
  ultimately show ?thesis by (intro conjI)
qed

text \<open>The example schema on payloads of the five lengths.\<close>

theorem Message_parse_base_2_unit_4_witness:
  "Message_init 1 ''EX'' example_fields = Inr example_message \<and>
   Message_repeated_block example_message = Some 1 \<and>
   base_size example_message = 2 \<and> repeat_size example_message = 4 \<and>
   (\<forall>k. struct_calcsize (Message_fmt (set_repeat example_message 1 k)) = 2 + (k + 1) * 4) \<and>
   list_all Descriptor_plain example_fields \<and>
   length (replicate 6 (CHR 0x01)) = 6 \<and> length (replicate 10 (CHR 0x01)) = 10 \<and>
   length (replicate 14 (CHR 0x01)) = 14 \<and> length (replicate 2 (CHR 0x01)) = 2 \<and>
   length (replicate 8 (CHR 0x01)) = 8 \<and>
   (\<exists>rec. Message_parse no_conversion example_message (replicate 6 (CHR 0x01))
            = Some (Inr rec, set_repeat example_message 1 0) \<and>
          repetitions example_message rec = Some 1) \<and>
   (\<exists>rec. Message_parse no_conversion example_message (replicate 10 (CHR 0x01))
            = Some (Inr rec, set_repeat example_message 1 1) \<and>
          repetitions example_message rec = Some 2) \<and>
   (\<exists>rec. Message_parse no_conversion example_message (replicate 14 (CHR 0x01))
            = Some (Inr rec, set_repeat example_message 1 2) \<and>
          repetitions example_message rec = Some 3) \<and>
   Message_parse no_conversion example_message (replicate 2 (CHR 0x01))
     = Some (Inl (LengthMismatch 6 2), set_repeat example_message 1 0) \<and>
   Message_parse no_conversion example_message (replicate 8 (CHR 0x01))
     = Some (Inl (LengthMismatch 10 8), set_repeat example_message 1 1)"
proof -
  note f = example_message_facts
  have H: "\<And>k. struct_calcsize (Message_fmt (set_repeat example_message 1 k)) = 2 + (k + 1) * 4"
    by (rule example_message_sizes)
  have l: "length (replicate 6 (CHR 0x01)) = 6" "length (replicate 10 (CHR 0x01)) = 10"
    "length (replicate 14 (CHR 0x01)) = 14" "length (replicate 2 (CHR 0x01)) = 2"
    "length (replicate 8 (CHR 0x01)) = 8"
    by simp_all
  note t = Message_parse_base_2_unit_4 [OF f(1) f(2) f(3) f(4) H f(5) l, of no_conversion]
  have H': "\<forall>k. struct_calcsize (Message_fmt (set_repeat example_message 1 k)) = 2 + (k + 1) * 4"
    using H by blast
  from f(1) f(2) f(3) f(4) H' f(5) l t show ?thesis by (intro conjI) blast+
qed

subsection \<open>Parser.receive_from: the search for the prefix\<close>

text \<open>
  In Python 2 \<^verbatim>\<open>str((0xB5, 0x62))\<close> is the text of the tuple, nine characters, and the loop
  compares it with the last two bytes that \<^verbatim>\<open>_read_until\<close> returned.
\<close>

lemma PREFIX_text: "PREFIX = ''(181, 98)''"
  by code_simp

lemma py_suffix_2_not_PREFIX: "py_suffix 2 buff \<noteq> PREFIX"
proof
  assume "py_suffix 2 buff = PREFIX"
  then have "length (py_suffix 2 buff) = length PREFIX" by simp
  moreover have "length (py_suffix 2 buff) \<le> 2" by (simp add: py_suffix_def)
  moreover have "length PREFIX = 9" by (simp add: PREFIX_text)
  ultimately show False by simp
qed

lemma seek_prefix_None: "seek_prefix stream = None"
proof -
  have "False" if "seek_prefix stream = Some y" for y
    using that
  proof (rule seek_prefix.raw_induct[rotated])
    fix loop :: "string \<Rightarrow> string option" and s z
    assume IH: "\<And>x y. loop x = Some y \<Longrightarrow> False"
      and eq: "(case read_until s PREFIX None of
                  (buff, stream') \<Rightarrow>
                    if py_suffix 2 buff = PREFIX then Some stream' else loop stream') = Some z"
    from eq IH show False
      by (auto simp: py_suffix_2_not_PREFIX split: prod.splits)
  qed
  then show ?thesis by (cases "seek_prefix stream") auto
qed

text \<open>
  C2. The claim is that the call ends with a stream-closed error when the stream signals
  end-of-data before the sync pair is found. On the empty stream the first
  \<^verbatim>\<open>stream.read(1)\<close> already returns no byte; \<^verbatim>\<open>_read_until\<close> returns the empty string, the
  loop calls it again, and the call never returns.
\<close>

theorem receive_from_stream_closed_counterexample:
  "receive_from no_conversion example_parser [] False False = None"
  by (simp add: receive_from_def seek_prefix_None)

text \<open>
  C2, as the code has it. When the stream reaches end-of-data without the bytes
  \<open>0xB5, 0x62\<close> having occurred in it, \<^verbatim>\<open>receive_from\<close> (called without \<^verbatim>\<open>skippreamble\<close>)
  raises no error and does not return: nothing but a match ends the search loop.
\<close>

theorem receive_from_end_of_data_never_returns:
  assumes "\<not> (\<exists>pre post. stream = pre @ [CHR 0xB5, CHR 0x62] @ post)"
  shows "receive_from bi self stream False ignoreunsupported = None"
  by (simp add: receive_from_def seek_prefix_None)

text \<open>A stream of the two bytes \<open>$G\<close>, the start of an NMEA sentence.\<close>

theorem receive_from_end_of_data_never_returns_witness:
  "\<not> (\<exists>pre post. [CHR 0x24, CHR 0x47] = pre @ [CHR 0xB5, CHR 0x62] @ post) \<and>
   receive_from no_conversion example_parser [CHR 0x24, CHR 0x47] False False = None"
proof -
  have h: "\<not> (\<exists>pre post. [CHR 0x24, CHR 0x47] = pre @ [CHR 0xB5, CHR 0x62] @ post)"
    by (auto simp: Cons_eq_append_conv)
  from receive_from_end_of_data_never_returns [OF h] h show ?thesis by simp
qed

subsection \<open>Parser.receive_from: the checksum\<close>

text \<open>
  \<^verbatim>\<open>_generate_fletcher_checksum\<close> returns \<^verbatim>\<open>str((check_a, check_b))\<close>, in Python 2 a text of at
  least six characters, and \<^verbatim>\<open>receive_from\<close> compares it with the two bytes it has read:
  the comparison fails for every frame, and no call returns a decoded message.
\<close>

lemma dec_nonempty: "dec n \<noteq> []"
  by (subst dec.simps) simp

lemma length_checksum: "6 \<le> length (generate_fletcher_checksum payload)"
proof -
  obtain a b where ab: "fletcher_sums payload = (a, b)" by (cases "fletcher_sums payload")
  have one: "1 \<le> length (int_repr x)" for x
    using dec_nonempty by (auto simp: int_repr_def Suc_le_eq)
  from one[of a] one[of b] have "2 \<le> length (int_repr a) + length (int_repr b)" by linarith
  then show ?thesis
    by (simp add: generate_fletcher_checksum_def ab str_tuple_def)
qed

lemma checksum_never_equal:
  "length checksum_sup = 2 \<Longrightarrow> generate_fletcher_checksum buff \<noteq> checksum_sup"
  using length_checksum[of buff] by auto

lemma receive_frame_never_decodes:
  "receive_frame bi self stream ign \<noteq> Some (Inr (Decoded cn mn nt), stream', self')"
  by (auto simp: receive_frame_def stream_read_def Let_def checksum_never_equal
      split: option.splits if_splits prod.splits sum.splits)

lemma receive_from_never_decodes:
  "receive_from bi self stream skip ign \<noteq> Some (Inr (Decoded cn mn nt), stream', self')"
  by (auto simp: receive_from_def receive_frame_never_decodes split: option.splits if_splits)

lemma ack_frame_checksum:
  "fletcher_sums [CHR 0x05, CHR 0x01, CHR 0x02, CHR 0x00, CHR 0x06, CHR 0x01] = (15, 56)"
  "generate_fletcher_checksum [CHR 0x05, CHR 0x01, CHR 0x02, CHR 0x00, CHR 0x06, CHR 0x01] = ''(15, 56)''"
  by code_simp+

text \<open>
  C1. The claim is that a frame whose two trailing bytes equal the running-sum pair is
  verified. For the registered class 5, message 1, with the two-byte payload \<open>06 01\<close>
  the sums over \<open>05 01 02 00 06 01\<close> are \<open>(0x0F, 0x38)\<close>; the frame that ends in the bytes
  \<open>0F 38\<close> is rejected with the checksum error, the calculated value being the text
  \<open>(15, 56)\<close>.
\<close>

theorem receive_from_valid_checksum_rejected:
  "fletcher_sums [CHR 0x05, CHR 0x01, CHR 0x02, CHR 0x00, CHR 0x06, CHR 0x01] = (0x0F, 0x38) \<and>
   receive_from no_conversion example_parser
     [CHR 0x05, CHR 0x01, CHR 0x02, CHR 0x00, CHR 0x06, CHR 0x01, CHR 0x0F, CHR 0x38] True False
   = Some (Inl (ChecksumMismatch ''(15, 56)'' [CHR 0x0F, CHR 0x38]), [], example_parser)"
  by (simp add: ack_frame_checksum receive_from_def receive_frame_def stream_read_def
      example_parser_def ack_cls_def Cls_contains_def Let_def)

subsection \<open>Parser.receive_from: messages that are not registered\<close>

text \<open>
  C6. The claim is that the lenient mode reads and drops \<open>length + 2\<close> further bytes
  before it returns. For a header of the unregistered class \<open>0x0A\<close> with length 2 the
  call returns \<^verbatim>\<open>(None, None, None)\<close> with the two payload bytes and the two checksum bytes
  still in the stream.
\<close>

theorem receive_from_unsupported_counterexample:
  "Parser_classes example_parser 0x0A = None \<and>
   receive_from no_conversion example_parser
     [CHR 0x0A, CHR 0x01, CHR 0x02, CHR 0x00, CHR 0xAA, CHR 0xBB, CHR 0x11, CHR 0x22, CHR 0x99]
     True True
   = Some (Inr Skipped, [CHR 0xAA, CHR 0xBB, CHR 0x11, CHR 0x22, CHR 0x99], example_parser) \<and>
   [CHR 0xAA, CHR 0xBB, CHR 0x11, CHR 0x22, CHR 0x99]
     \<noteq> drop (2 + 2) [CHR 0xAA, CHR 0xBB, CHR 0x11, CHR 0x22, CHR 0x99]"
  by (simp add: receive_from_def receive_frame_def stream_read_def example_parser_def Let_def)

text \<open>
  C6, as the code has it. For a frame whose class is not registered, or whose message is
  not registered in its class, \<^verbatim>\<open>receive_from\<close> (entered after the sync bytes, with
  \<^verbatim>\<open>skippreamble\<close>) has read the four header bytes and nothing more: in lenient mode it
  returns the skipped result \<^verbatim>\<open>(None, None, None)\<close>, in strict mode it raises the error for
  the unsupported class or message; the parser is unchanged in both.
\<close>

theorem receive_from_unsupported:
  assumes "4 \<le> length stream"
    and "case Parser_classes self (of_char (stream ! 0)) of
           None \<Rightarrow> True
         | Some cls \<Rightarrow> \<not> Cls_contains cls (of_char (stream ! 1))"
  shows "receive_from bi self stream True True = Some (Inr Skipped, drop 4 stream, self) \<and>
         (\<exists>e. receive_from bi self stream True False = Some (Inl e, drop 4 stream, self) \<and>
              (e = UnsupportedClass (of_char (stream ! 1)) (of_char (stream ! 0)) \<or>
               e = UnsupportedMessage (of_char (stream ! 1)) (of_char (stream ! 0))))"
  using assms
  by (auto simp: receive_from_def receive_frame_def stream_read_def Let_def split: option.splits)

text \<open>Class 5 is registered, its message 7 is not.\<close>

theorem receive_from_unsupported_witness:
  "4 \<le> length [CHR 0x05, CHR 0x07, CHR 0x02, CHR 0x00, CHR 0xAA, CHR 0xBB, CHR 0x11, CHR 0x22] \<and>
   Parser_classes example_parser 5 = Some ack_cls \<and> \<not> Cls_contains ack_cls 7 \<and>
   receive_from no_conversion example_parser
     [CHR 0x05, CHR 0x07, CHR 0x02, CHR 0x00, CHR 0xAA, CHR 0xBB, CHR 0x11, CHR 0x22] True True
     = Some (Inr Skipped, [CHR 0xAA, CHR 0xBB, CHR 0x11, CHR 0x22], example_parser) \<and>
   receive_from no_conversion example_parser
     [CHR 0x05, CHR 0x07, CHR 0x02, CHR 0x00, CHR 0xAA, CHR 0xBB, CHR 0x11, CHR 0x22] True False
     = Some (Inl (UnsupportedMessage 7 5), [CHR 0xAA, CHR 0xBB, CHR 0x11, CHR 0x22], example_parser)"
proof -
  let ?s = "[CHR 0x05, CHR 0x07, CHR 0x02, CHR 0x00, CHR 0xAA, CHR 0xBB, CHR 0x11, CHR 0x22]"
  have h1: "4 \<le> length ?s" by simp
  have c: "Parser_classes example_parser 5 = Some ack_cls" "\<not> Cls_contains ack_cls 7"
    by (simp_all add: example_parser_def ack_cls_def Cls_contains_def)
  have h2: "case Parser_classes example_parser (of_char (?s ! 0)) of
           None \<Rightarrow> True
         | Some cls \<Rightarrow> \<not> Cls_contains cls (of_char (?s ! 1))"
    using c by simp
  note t = receive_from_unsupported [OF h1 h2, of no_conversion]
  from t have lenient: "receive_from no_conversion example_parser ?s True True
      = Some (Inr Skipped, [CHR 0xAA, CHR 0xBB, CHR 0x11, CHR 0x22], example_parser)"
    by simp
  from t obtain e where strict: "receive_from no_conversion example_parser ?s True False
      = Some (Inl e, drop 4 ?s, example_parser)"
    and e: "e = UnsupportedClass (of_char (?s ! 1)) (of_char (?s ! 0)) \<or>
            e = UnsupportedMessage (of_char (?s ! 1)) (of_char (?s ! 0))"
    by blast
  have "receive_from no_conversion example_parser ?s True False
      \<noteq> Some (Inl (UnsupportedClass 7 5), drop 4 ?s, example_parser)"
    by (simp add: receive_from_def receive_frame_def stream_read_def Let_def c)
  with strict e have "receive_from no_conversion example_parser ?s True False
      = Some (Inl (UnsupportedMessage 7 5), [CHR 0xAA, CHR 0xBB, CHR 0x11, CHR 0x22], example_parser)"
    by auto
  with h1 c lenient show ?thesis by simp
qed

end
